theory Spec2Isabelle
  imports Complex_Main "HOL-Library.Log_Nat"
begin

section \<open>Persistent data (prisma schema, migration 20260211134558_init)\<close>

text \<open>
  Only the columns that the session runtime reads or writes are kept.  Generated columns
  (\<open>id\<close> of a Score row, \<open>createdAt\<close>, \<open>updatedAt\<close>) are left out.  Identifiers are
  strings, an INTEGER column is an \<open>int\<close>, a nullable TEXT column is a \<open>string option\<close>.
\<close>

datatype SessionStatus = SETUP | IN_PROGRESS | COMPLETED | CANCELLED

record InterviewSession =
  interviewerId :: string
  candidateName :: string
  status :: SessionStatus

record Score =
  interviewId :: string
  questionId :: string
  score :: int
  "notes" :: "string option"

record InterviewQuestion =
  iq_interviewId :: string
  iq_questionId :: string
  iq_order :: int

record InterviewSectionConfig =
  isc_interviewId :: string
  isc_sectionId :: string
  isc_durationMinutes :: int
  isc_order :: int

text \<open>
  The database: \<open>interviewSession\<close> is keyed by the primary key \<open>id\<close>; \<open>question\<close> is the
  set of primary keys of the Question table (the target of \<open>Score_questionId_fkey\<close> and
  \<open>InterviewQuestion_questionId_fkey\<close>); the other tables are lists of rows.
\<close>

record database =
  interviewSession :: "string \<rightharpoonup> InterviewSession"
  question :: "string set"
  interviewSectionConfig :: "InterviewSectionConfig list"
  interviewQuestion :: "InterviewQuestion list"
  scoreTable :: "Score list"

section \<open>ScoreService (server/src/services/score-service.ts)\<close>

text \<open>
  \<open>prisma.score.upsert\<close> with \<open>where: interviewId_questionId\<close>.  The library's behaviour is
  taken from its documentation: a row matching the unique key is updated with the \<open>update\<close>
  payload, in which a field whose value is \<open>undefined\<close> is left as it is; otherwise the
  \<open>create\<close> payload is inserted, an absent \<open>notes\<close> becoming NULL, and the insert throws when
  a foreign key of the new row has no target.
\<close>

record upsert_data =
  data_interviewId :: string
  data_questionId :: string
  data_score :: int
  data_notes :: "string option"

datatype prisma_error = ForeignKeyViolation

definition same_key :: "upsert_data \<Rightarrow> Score \<Rightarrow> bool" where
  "same_key d r = (interviewId r = data_interviewId d \<and> questionId r = data_questionId d)"

definition apply_update :: "upsert_data \<Rightarrow> Score \<Rightarrow> Score" where
  "apply_update d r =
     r\<lparr>score := data_score d,
       notes := (case data_notes d of None \<Rightarrow> notes r | Some n \<Rightarrow> Some n)\<rparr>"

definition create_row :: "upsert_data \<Rightarrow> Score" where
  "create_row d =
     \<lparr>interviewId = data_interviewId d, questionId = data_questionId d,
      score = data_score d, notes = data_notes d\<rparr>"

definition upsertScore :: "upsert_data \<Rightarrow> database \<Rightarrow> (prisma_error + Score) \<times> database" where
  "upsertScore d db =
     (case find (same_key d) (scoreTable db) of
        Some r \<Rightarrow>
          (Inr (apply_update d r),
           db\<lparr>scoreTable := map (\<lambda>x. if same_key d x then apply_update d x else x) (scoreTable db)\<rparr>)
      | None \<Rightarrow>
          if interviewSession db (data_interviewId d) = None \<or> data_questionId d \<notin> question db
          then (Inl ForeignKeyViolation, db)
          else (Inr (create_row d), db\<lparr>scoreTable := scoreTable db @ [create_row d]\<rparr>))"

definition getScoresForInterview :: "string \<Rightarrow> database \<Rightarrow> Score list" where
  "getScoresForInterview iid db = filter (\<lambda>r. interviewId r = iid) (scoreTable db)"

section \<open>ScoreController (server/src/controllers/score-controller.ts)\<close>

text \<open>
  The JSON body of a request is untyped.  \<open>interviewId\<close> and \<open>questionId\<close> are modelled as
  strings, the empty string standing for every falsy value (an absent field included).
  \<open>score\<close> is \<open>undefined\<close>, a number, or some other value (null, a string, NaN, ...);
  numbers are modelled as rationals.  \<open>notes\<close> is absent or a string.
\<close>

datatype jsvalue = JUndefined | JNumber rat | JOther

record upsert_body =
  body_interviewId :: string
  body_questionId :: string
  body_score :: jsvalue
  body_notes :: "string option"

text \<open>A response is the JSON payload, or a status code with the \<open>error\<close> text of the body.\<close>

datatype 'a response = Json 'a | Error nat string

definition isInteger :: "jsvalue \<Rightarrow> bool" where
  "isInteger v = (case v of JNumber x \<Rightarrow> x = of_int \<lfloor>x\<rfloor> | _ \<Rightarrow> False)"

definition score_out_of_range :: "jsvalue \<Rightarrow> bool" where
  "score_out_of_range v = (case v of JNumber x \<Rightarrow> x < 1 \<or> x > 5 | _ \<Rightarrow> False)"

definition score_int :: "jsvalue \<Rightarrow> int" where
  "score_int v = (case v of JNumber x \<Rightarrow> \<lfloor>x\<rfloor> | _ \<Rightarrow> 0)"

definition upsert :: "string \<Rightarrow> upsert_body \<Rightarrow> database \<Rightarrow> Score response \<times> database" where
  "upsert userId b db =
     (if body_interviewId b = [] \<or> body_questionId b = [] \<or> body_score b = JUndefined
      then (Error 400 ''interviewId, questionId, and score required'', db)
      else if \<not> isInteger (body_score b) \<or> score_out_of_range (body_score b)
      then (Error 400 ''score must be an integer between 1 and 5'', db)
      else case interviewSession db (body_interviewId b) of
        None \<Rightarrow> (Error 404 ''Interview not found'', db)
      | Some interview \<Rightarrow>
          if interviewerId interview \<noteq> userId then (Error 403 ''Unauthorized'', db)
          else (case upsertScore
                  \<lparr>data_interviewId = body_interviewId b, data_questionId = body_questionId b,
                   data_score = score_int (body_score b), data_notes = body_notes b\<rparr> db of
                  (Inr result, db') \<Rightarrow> (Json result, db')
                | (Inl err, db') \<Rightarrow> (Error 500 ''Internal server error'', db')))"

definition listByInterview :: "string \<Rightarrow> string \<Rightarrow> database \<Rightarrow> Score list response" where
  "listByInterview userId iid db =
     (case interviewSession db iid of
        None \<Rightarrow> Error 404 ''Interview not found''
      | Some interview \<Rightarrow>
          if interviewerId interview \<noteq> userId then Error 403 ''Unauthorized''
          else Json (getScoresForInterview iid db))"

section \<open>InterviewService lifecycle operations (server/src/services/interview-service.ts)\<close>

text \<open>
  A thrown \<open>Error\<close> is identified by its message:
  \<open>Interview_not_found\<close> is 'Interview not found', \<open>Unauthorized\<close> is 'Unauthorized',
  \<open>Only_SETUP\<close> is 'Can only start interviews in SETUP status' and
  \<open>Only_IN_PROGRESS\<close> is 'Can only complete interviews in IN_PROGRESS status'.
\<close>

datatype service_error = Interview_not_found | Unauthorized | Only_SETUP | Only_IN_PROGRESS

definition set_status :: "string \<Rightarrow> InterviewSession \<Rightarrow> SessionStatus \<Rightarrow> database \<Rightarrow> database" where
  "set_status iid interview st db =
     db\<lparr>interviewSession := (interviewSession db)(iid \<mapsto> interview\<lparr>status := st\<rparr>)\<rparr>"

definition startInterview ::
  "string \<Rightarrow> string \<Rightarrow> database \<Rightarrow> (service_error + InterviewSession) \<times> database" where
  "startInterview iid userId db =
     (case interviewSession db iid of
        None \<Rightarrow> (Inl Interview_not_found, db)
      | Some interview \<Rightarrow>
          if interviewerId interview \<noteq> userId then (Inl Unauthorized, db)
          else if status interview \<noteq> SETUP then (Inl Only_SETUP, db)
          else (Inr (interview\<lparr>status := IN_PROGRESS\<rparr>), set_status iid interview IN_PROGRESS db))"

definition completeInterview ::
  "string \<Rightarrow> string \<Rightarrow> database \<Rightarrow> (service_error + InterviewSession) \<times> database" where
  "completeInterview iid userId db =
     (case interviewSession db iid of
        None \<Rightarrow> (Inl Interview_not_found, db)
      | Some interview \<Rightarrow>
          if interviewerId interview \<noteq> userId then (Inl Unauthorized, db)
          else if status interview \<noteq> IN_PROGRESS then (Inl Only_IN_PROGRESS, db)
          else (Inr (interview\<lparr>status := COMPLETED\<rparr>), set_status iid interview COMPLETED db))"

definition deleteInterview ::
  "string \<Rightarrow> string \<Rightarrow> database \<Rightarrow> (service_error + unit) \<times> database" where
  "deleteInterview iid userId db =
     (case interviewSession db iid of
        None \<Rightarrow> (Inl Interview_not_found, db)
      | Some interview \<Rightarrow>
          if interviewerId interview \<noteq> userId then (Inl Unauthorized, db)
          else (Inr (),
                db\<lparr>scoreTable := filter (\<lambda>r. interviewId r \<noteq> iid) (scoreTable db),
                   interviewQuestion := filter (\<lambda>r. iq_interviewId r \<noteq> iid) (interviewQuestion db),
                   interviewSectionConfig :=
                     filter (\<lambda>r. isc_interviewId r \<noteq> iid) (interviewSectionConfig db),
                   interviewSession := (interviewSession db)(iid := None)\<rparr>))"

text \<open>
  InterviewController.start and InterviewController.complete
  (server/src/controllers/interview-controller.ts).  \<open>start\<close> answers 400 to a message that
  contains 'SETUP'; \<open>complete\<close> has no such case, so its status error falls through to 500.
\<close>

definition start :: "string \<Rightarrow> string \<Rightarrow> database \<Rightarrow> InterviewSession response \<times> database" where
  "start iid userId db =
     (case startInterview iid userId db of
        (Inr interview, db') \<Rightarrow> (Json interview, db')
      | (Inl Interview_not_found, db') \<Rightarrow> (Error 404 ''Interview not found'', db')
      | (Inl Unauthorized, db') \<Rightarrow> (Error 403 ''Unauthorized'', db')
      | (Inl Only_SETUP, db') \<Rightarrow> (Error 400 ''Can only start interviews in SETUP status'', db')
      | (Inl Only_IN_PROGRESS, db') \<Rightarrow> (Error 500 ''Internal server error'', db'))"

definition complete :: "string \<Rightarrow> string \<Rightarrow> database \<Rightarrow> InterviewSession response \<times> database" where
  "complete iid userId db =
     (case completeInterview iid userId db of
        (Inr interview, db') \<Rightarrow> (Json interview, db')
      | (Inl Interview_not_found, db') \<Rightarrow> (Error 404 ''Interview not found'', db')
      | (Inl Unauthorized, db') \<Rightarrow> (Error 403 ''Unauthorized'', db')
      | (Inl _, db') \<Rightarrow> (Error 500 ''Internal server error'', db'))"

text \<open>InterviewController.remove: 204 without a body on success.\<close>

definition remove :: "string \<Rightarrow> string \<Rightarrow> database \<Rightarrow> unit response \<times> database" where
  "remove iid userId db =
     (case deleteInterview iid userId db of
        (Inr _, db') \<Rightarrow> (Json (), db')
      | (Inl Interview_not_found, db') \<Rightarrow> (Error 404 ''Interview not found'', db')
      | (Inl Unauthorized, db') \<Rightarrow> (Error 403 ''Unauthorized'', db')
      | (Inl _, db') \<Rightarrow> (Error 500 ''Internal server error'', db'))"

section \<open>Sequences of requests\<close>

text \<open>
  The requests of the score and lifecycle endpoints, each with the authenticated user,
  and their effect on the database.
\<close>

datatype operation =
    Upsert string upsert_body
  | Start string string
  | Complete string string
  | Remove string string

fun perform :: "operation \<Rightarrow> database \<Rightarrow> database" where
  "perform (Upsert userId b) db = snd (upsert userId b db)"
| "perform (Start iid userId) db = snd (start iid userId db)"
| "perform (Complete iid userId) db = snd (complete iid userId db)"
| "perform (Remove iid userId) db = snd (remove iid userId db)"

section \<open>Section timer (client component SectionTimer)\<close>

text \<open>
  The component keeps one piece of state, \<open>elapsed\<close> (initially 0).  Every 100 ms an
  interval callback stores \<open>now - startTime\<close> into it; nothing is ever incremented.
  Timestamps are integral milliseconds (\<open>Date.getTime()\<close>), the duration is the
  INTEGER column \<open>durationMinutes\<close>.
\<close>

record timer_props =
  startTime :: int
  durationMinutes :: int

record timer_view =
  remaining :: int
  warning :: bool
  minutes :: int
  seconds :: int

definition initial_elapsed :: int where
  "initial_elapsed = 0"

definition setElapsed :: "timer_props \<Rightarrow> int \<Rightarrow> int" where
  "setElapsed p now = now - startTime p"

definition totalMs :: "timer_props \<Rightarrow> int" where
  "totalMs p = durationMinutes p * 60 * 1000"

definition SectionTimer :: "timer_props \<Rightarrow> int \<Rightarrow> timer_view" where
  "SectionTimer p elapsed =
     (let remaining = max 0 (totalMs p - elapsed) in
      \<lparr> remaining = remaining,
        warning = (remaining < 60000),
        minutes = remaining div 60000,
        seconds = (remaining mod 60000) div 1000 \<rparr>)"

section \<open>Loaded interviews and score aggregation\<close>

text \<open>
  An interview as the server loads it (\<open>getInterviewData\<close>, \<open>getInterview\<close>,
  \<open>listInterviews\<close>) and as the client receives it (client/src/types/interview.ts): the
  section configs with their section, the selected questions with their question and its
  section, and the scores.  On the client \<open>selectedQuestions\<close> and \<open>scores\<close> are optional.
  A JavaScript number is an IEEE 754 binary64 value; a finite one is modelled by the
  rational it denotes, and every arithmetic operation rounds its exact result to binary64.
\<close>

record SectionConfig =
  sectionId :: string
  config_durationMinutes :: int
  section_name :: string

record InterviewQuestionItem =
  item_questionId :: string
  question_sectionId :: string
  question_section_name :: string

record InterviewData =
  loaded_sectionConfigs :: "SectionConfig list"
  loaded_selectedQuestions :: "InterviewQuestionItem list"
  loaded_scores :: "Score list"

record Interview =
  sectionConfigs :: "SectionConfig list"
  selectedQuestions :: "InterviewQuestionItem list option"
  scores :: "Score list option"

subsection \<open>Numbers\<close>

text \<open>
  Rounding to binary64: to the nearest value with a 53-bit significand, a tie going to
  the even significand.  \<open>exponent x\<close> is the integer \<open>e\<close> with \<open>2^e \<le> |x| < 2^(e+1)\<close>,
  found from the bit lengths of numerator and denominator.  The exponent range is not
  limited: the numbers computed here are sums and means of INTEGER scores, far inside
  the normal range of binary64, so neither overflow nor subnormal values arise.
  \<open>fadd\<close> is \<open>+\<close> and \<open>fdiv\<close> is \<open>/\<close> on numbers; every division of the source has a
  positive length as divisor.
\<close>

definition exponent :: "rat \<Rightarrow> int" where
  "exponent x =
     (let (p, q) = quotient_of \<bar>x\<bar>;
          k = bitlen p - bitlen q
      in if 2 powi k \<le> \<bar>x\<bar> then k else k - 1)"

definition round_half_even :: "rat \<Rightarrow> int" where
  "round_half_even y =
     (let f = \<lfloor>y\<rfloor>; d = y - of_int f
      in if d < 1 / 2 then f else if 1 / 2 < d then f + 1 else if even f then f else f + 1)"

definition binary64 :: "rat \<Rightarrow> rat" where
  "binary64 x =
     (if x = 0 then 0
      else let ulp = 2 powi (exponent x - 52) in of_int (round_half_even (x / ulp)) * ulp)"

definition fadd :: "rat \<Rightarrow> rat \<Rightarrow> rat" where
  "fadd a b = binary64 (a + b)"

definition fdiv :: "rat \<Rightarrow> rat \<Rightarrow> rat" where
  "fdiv a b = binary64 (a / b)"

text \<open>
  A displayed cell: the result of \<open>toFixed(1)\<close>, kept as its number of tenths
  (\<open>Fixed1 25\<close> is the string 2.5), the placeholder 'N/A' of the exports, the dash
  (U+2014) of the results page, or the string NaN.
\<close>

datatype display = Fixed1 int | NA | EmDash | NaN

text \<open>
  \<open>Number.prototype.toFixed(1)\<close>: the multiple of a tenth nearest to the exact value of the
  number, the larger one on a tie, computed on the absolute value with the sign put back.
\<close>

definition toFixed1 :: "rat \<Rightarrow> display" where
  "toFixed1 x = (if x < 0 then Fixed1 (- \<lfloor>- x * 10 + 1 / 2\<rfloor>) else Fixed1 \<lfloor>x * 10 + 1 / 2\<rfloor>)"

text \<open>\<open>parseFloat\<close> of a cell: the number nearest to the decimal; \<open>None\<close> is NaN.\<close>

definition parseFloat :: "display \<Rightarrow> rat option" where
  "parseFloat d = (case d of Fixed1 n \<Rightarrow> Some (binary64 (of_int n / 10)) | _ \<Rightarrow> None)"

text \<open>\<open>new Map(entries)\<close>: a later entry for a key replaces an earlier one.\<close>

definition newMap :: "('k \<times> 'v) list \<Rightarrow> 'k \<rightharpoonup> 'v" where
  "newMap entries = map_of (rev entries)"

text \<open>\<open>.filter(s => !!s)\<close> on the results of \<open>Map.get\<close>: the defined ones.\<close>

definition defined :: "'a option list \<Rightarrow> 'a list" where
  "defined xs = map the (filter (\<lambda>s. s \<noteq> None) xs)"

subsection \<open>ExportService.generateExcel and ExportService.generatePdf\<close>

text \<open>
  Both methods start with the same loop over the section configs
  (export-service.ts lines 51-64 and 148-161) and later compute the per-section cell with
  the same expression (lines 112-121 and 204-213).
\<close>

definition export_sScores :: "InterviewData \<Rightarrow> SectionConfig \<Rightarrow> Score list" where
  "export_sScores interview sc =
     (let scoreMap = newMap (map (\<lambda>s. (questionId s, s)) (loaded_scores interview));
          sectionQs = filter (\<lambda>q. question_section_name q = section_name sc)
                        (loaded_selectedQuestions interview)
      in defined (map (\<lambda>q. scoreMap (item_questionId q)) sectionQs))"

definition export_push :: "InterviewData \<Rightarrow> rat list \<Rightarrow> SectionConfig \<Rightarrow> rat list" where
  "export_push interview sectionAvgs sc =
     (let sScores = export_sScores interview sc
      in if length sScores > 0
         then sectionAvgs @
                [fdiv (foldl (\<lambda>sum s. fadd sum (of_int (score s))) 0 sScores)
                   (of_nat (length sScores))]
         else sectionAvgs)"

definition generateExcel_avgScore :: "InterviewData \<Rightarrow> display" where
  "generateExcel_avgScore interview =
     (let sectionAvgs = foldl (export_push interview) [] (loaded_sectionConfigs interview)
      in if length sectionAvgs > 0
         then toFixed1 (fdiv (foldl (\<lambda>a b. fadd a b) 0 sectionAvgs)
                          (of_nat (length sectionAvgs)))
         else NA)"

definition generatePdf_avgScore :: "InterviewData \<Rightarrow> display" where
  "generatePdf_avgScore interview =
     (let sectionAvgs = foldl (export_push interview) [] (loaded_sectionConfigs interview)
      in if length sectionAvgs > 0
         then toFixed1 (fdiv (foldl (\<lambda>a b. fadd a b) 0 sectionAvgs)
                          (of_nat (length sectionAvgs)))
         else NA)"

definition export_sectionAvg :: "InterviewData \<Rightarrow> SectionConfig \<Rightarrow> display" where
  "export_sectionAvg interview sc =
     (let sectionScores = export_sScores interview sc
      in if length sectionScores > 0
         then toFixed1 (fdiv (foldl (\<lambda>sum s. fadd sum (of_int (score s))) 0 sectionScores)
                          (of_nat (length sectionScores)))
         else NA)"

subsection \<open>InterviewResultsPage (client/src/pages/interview-results-page.tsx)\<close>

record section_group =
  group_questions :: "InterviewQuestionItem list"
  group_scores :: "Score list"
  avg :: display

definition sectionGroups :: "Interview \<Rightarrow> Score list \<Rightarrow> section_group list" where
  "sectionGroups interview scores_state =
     (let scoreMap = newMap (map (\<lambda>s. (questionId s, s)) scores_state)
      in map (\<lambda>sc.
           let sectionQuestions =
                 (case selectedQuestions interview of
                    None \<Rightarrow> []
                  | Some qs \<Rightarrow> filter (\<lambda>q. question_sectionId q = sectionId sc) qs);
               sectionScores = defined (map (\<lambda>q. scoreMap (item_questionId q)) sectionQuestions);
               sectionAvg =
                 (if length sectionScores > 0
                  then toFixed1
                         (fdiv (foldl (\<lambda>sum s. fadd sum (of_int (score s))) 0 sectionScores)
                            (of_nat (length sectionScores)))
                  else EmDash)
           in \<lparr>group_questions = sectionQuestions, group_scores = sectionScores, avg = sectionAvg\<rparr>)
         (sectionConfigs interview))"

definition add_parsed :: "rat option \<Rightarrow> section_group \<Rightarrow> rat option" where
  "add_parsed acc g =
     (case (acc, parseFloat (avg g)) of (Some a, Some b) \<Rightarrow> Some (fadd a b) | _ \<Rightarrow> None)"

definition results_avgScore :: "Interview \<Rightarrow> Score list \<Rightarrow> display" where
  "results_avgScore interview scores_state =
     (let scoredSections = filter (\<lambda>g. avg g \<noteq> EmDash) (sectionGroups interview scores_state)
      in if length scoredSections > 0
         then (case foldl add_parsed (Some 0) scoredSections of
                 Some t \<Rightarrow> toFixed1 (fdiv t (of_nat (length scoredSections)))
               | None \<Rightarrow> NaN)
         else EmDash)"

subsection \<open>InterviewListPage.getOverallScore (client/src/pages/interview-list-page.tsx)\<close>

definition list_sectionScores ::
  "(string \<rightharpoonup> int) \<Rightarrow> InterviewQuestionItem list \<Rightarrow> SectionConfig \<Rightarrow> int list" where
  "list_sectionScores scoreMap qs sc =
     map the (filter (\<lambda>s. s \<noteq> None \<and> the s > 0)
       (map (\<lambda>q. scoreMap (item_questionId q))
          (filter (\<lambda>q. question_sectionId q = sectionId sc) qs)))"

definition list_push ::
  "(string \<rightharpoonup> int) \<Rightarrow> InterviewQuestionItem list \<Rightarrow> rat list \<Rightarrow> SectionConfig \<Rightarrow> rat list" where
  "list_push scoreMap qs sectionAvgs sc =
     (let sectionScores = list_sectionScores scoreMap qs sc
      in if length sectionScores > 0
         then sectionAvgs @
                [fdiv (foldl (\<lambda>a b. fadd a (of_int b)) 0 sectionScores)
                   (of_nat (length sectionScores))]
         else sectionAvgs)"

definition getOverallScore :: "Interview \<Rightarrow> rat option" where
  "getOverallScore interview =
     (case (scores interview, selectedQuestions interview) of
        (Some ss, Some qs) \<Rightarrow>
          if length ss = 0 \<or> length (sectionConfigs interview) = 0 \<or> length qs = 0 then None
          else
            (let scoreMap = newMap (map (\<lambda>s. (questionId s, score s)) ss);
                 sectionAvgs = foldl (list_push scoreMap qs) [] (sectionConfigs interview)
             in if length sectionAvgs > 0
                then Some (fdiv (foldl (\<lambda>a b. fadd a b) 0 sectionAvgs)
                             (of_nat (length sectionAvgs)))
                else None)
      | _ \<Rightarrow> None)"

subsection \<open>The aggregate as the specification words it\<close>

text \<open>
  For each section in plan order, the scores above zero of the entries of its questions;
  a section without any is left out; the overall score is the mean of the remaining
  sections' means, and is absent when no section remains.  The mean of a list of numbers
  is their sum, taken from the first to the last, divided by their count, in the
  arithmetic of numbers.
\<close>

definition mean :: "rat list \<Rightarrow> rat" where
  "mean xs = fdiv (foldl fadd 0 xs) (of_nat (length xs))"

definition spec_sectionScores ::
  "InterviewQuestionItem list \<Rightarrow> Score list \<Rightarrow> SectionConfig \<Rightarrow> int list" where
  "spec_sectionScores qs entries sc =
     concat (map (\<lambda>q. map score (filter (\<lambda>e. questionId e = item_questionId q \<and> score e > 0) entries))
               (filter (\<lambda>q. question_sectionId q = sectionId sc) qs))"

definition spec_sectionAverages ::
  "SectionConfig list \<Rightarrow> InterviewQuestionItem list \<Rightarrow> Score list \<Rightarrow> rat list" where
  "spec_sectionAverages plan qs entries =
     map (\<lambda>sc. mean (map of_int (spec_sectionScores qs entries sc)))
       (filter (\<lambda>sc. spec_sectionScores qs entries sc \<noteq> []) plan)"

definition spec_overallScore ::
  "SectionConfig list \<Rightarrow> InterviewQuestionItem list \<Rightarrow> Score list \<Rightarrow> rat option" where
  "spec_overallScore plan qs entries =
     (let avgs = spec_sectionAverages plan qs entries
      in if avgs = [] then None else Some (mean avgs))"

subsection \<open>The aggregate in exact arithmetic\<close>

text \<open>
  The same mean of section means with every sum and quotient exact, for comparison with
  the numbers the code computes.  \<open>roundings\<close> bounds the number of rounded
  operations between a score and the overall score: the additions and the division of a
  section mean, then the additions and the division of the overall mean.
\<close>

definition exact_mean :: "rat list \<Rightarrow> rat" where
  "exact_mean xs = sum_list xs / of_nat (length xs)"

definition exact_overallScore ::
  "SectionConfig list \<Rightarrow> InterviewQuestionItem list \<Rightarrow> Score list \<Rightarrow> rat option" where
  "exact_overallScore plan qs entries =
     (let avgs = map (\<lambda>sc. exact_mean (map of_int (spec_sectionScores qs entries sc)))
                   (filter (\<lambda>sc. spec_sectionScores qs entries sc \<noteq> []) plan)
      in if avgs = [] then None else Some (exact_mean avgs))"

definition roundings :: "SectionConfig list \<Rightarrow> InterviewQuestionItem list \<Rightarrow> Score list \<Rightarrow> nat" where
  "roundings plan qs entries =
     length (concat (map (spec_sectionScores qs entries) plan)) + length plan + 2"

section \<open>LiveInterviewPage (client/src/pages/live-interview-page.tsx)\<close>

text \<open>
  The in-memory buffer \<open>scores\<close> is an object keyed by question id: an association list
  with one pair per key, in insertion order.
\<close>

record buffer_entry =
  entry_score :: int
  entry_notes :: string

type_synonym buffer = "(string \<times> buffer_entry) list"

definition assign :: "buffer \<Rightarrow> string \<Rightarrow> buffer_entry \<Rightarrow> buffer" where
  "assign prev k v =
     (if k \<in> set (map fst prev) then map (\<lambda>(k', v'). if k' = k then (k', v) else (k', v')) prev
      else prev @ [(k, v)])"

definition updateScore :: "string \<Rightarrow> int \<Rightarrow> buffer \<Rightarrow> buffer" where
  "updateScore qid s prev =
     assign prev qid
       \<lparr>entry_score = s,
        entry_notes = (case map_of prev qid of Some e \<Rightarrow> entry_notes e | None \<Rightarrow> [])\<rparr>"

definition updateNotes :: "string \<Rightarrow> string \<Rightarrow> buffer \<Rightarrow> buffer" where
  "updateNotes qid n prev =
     assign prev qid
       \<lparr>entry_score = (case map_of prev qid of Some e \<Rightarrow> entry_score e | None \<Rightarrow> 0),
        entry_notes = n\<rparr>"

text \<open>\<open>saveScores\<close>: the upsert requests that one save cycle issues.\<close>

definition saveScores :: "string \<Rightarrow> buffer \<Rightarrow> upsert_body list" where
  "saveScores iid buf =
     (if iid = [] \<or> length buf = 0 then []
      else map (\<lambda>(qid, data).
                  \<lparr>body_interviewId = iid, body_questionId = qid,
                   body_score = JNumber (of_int (entry_score data)),
                   body_notes = Some (entry_notes data)\<rparr>)
             (filter (\<lambda>(qid, data). entry_score data > 0) buf))"

text \<open>The server handling the requests of a cycle, one after the other, for the logged-in user.\<close>

definition handle_requests :: "string \<Rightarrow> upsert_body list \<Rightarrow> database \<Rightarrow> database" where
  "handle_requests userId reqs db = foldl (\<lambda>d b. snd (upsert userId b d)) db reqs"

record live_page =
  page_id :: string
  sectionCount :: nat
  currentSectionIdx :: nat
  currentQuestionIdx :: nat
  sectionStartTime :: int
  scores_buffer :: buffer

text \<open>
  \<open>handleNextSection\<close>, with \<open>sectionCount\<close> standing for
  \<open>interview.sectionConfigs.length\<close> and \<open>now\<close> for \<open>new Date()\<close>.
\<close>

definition handleNextSection :: "string \<Rightarrow> int \<Rightarrow> live_page \<Rightarrow> database \<Rightarrow> live_page \<times> database" where
  "handleNextSection userId now pg db =
     (let db1 = handle_requests userId (saveScores (page_id pg) (scores_buffer pg)) db
      in if int (currentSectionIdx pg) < int (sectionCount pg) - 1
         then (pg\<lparr>currentSectionIdx := currentSectionIdx pg + 1, currentQuestionIdx := 0,
                  sectionStartTime := now\<rparr>, db1)
         else if page_id pg \<noteq> [] then (pg, snd (complete (page_id pg) userId db1))
         else (pg, db1))"

section \<open>Properties of states and concrete states used below\<close>

text \<open>
  \<open>selection_ok\<close>: every score row belongs to a question selected for its interview.
  \<open>with_status\<close>: the same database with the status of one session replaced.
  The \<open>example_\<close> constants are a small database with one interview of interviewer alice,
  two questions in the bank of which only q1 is selected, and a live page on its last
  section.
\<close>

definition example_session :: "SessionStatus \<Rightarrow> InterviewSession" where
  "example_session st = \<lparr>interviewerId = ''alice'', candidateName = ''Bob'', status = st\<rparr>"

definition example_db :: "SessionStatus \<Rightarrow> database" where
  "example_db st =
     \<lparr>interviewSession = [''i1'' \<mapsto> example_session st],
      question = {''q1'', ''q2''},
      interviewSectionConfig =
        [\<lparr>isc_interviewId = ''i1'', isc_sectionId = ''sA'', isc_durationMinutes = 10, isc_order = 1\<rparr>],
      interviewQuestion = [\<lparr>iq_interviewId = ''i1'', iq_questionId = ''q1'', iq_order = 1\<rparr>],
      scoreTable = []\<rparr>"

definition example_body :: "string \<Rightarrow> rat \<Rightarrow> upsert_body" where
  "example_body qid x =
     \<lparr>body_interviewId = ''i1'', body_questionId = qid, body_score = JNumber x, body_notes = None\<rparr>"

definition example_page :: live_page where
  "example_page =
     \<lparr>page_id = ''i1'', sectionCount = 1, currentSectionIdx = 0, currentQuestionIdx = 0,
      sectionStartTime = 0, scores_buffer = [(''q1'', \<lparr>entry_score = 4, entry_notes = ''ok''\<rparr>)]\<rparr>"

definition selection_ok :: "database \<Rightarrow> bool" where
  "selection_ok db =
     list_all (\<lambda>r. list_ex (\<lambda>iq. iq_interviewId iq = interviewId r \<and> iq_questionId iq = questionId r)
                       (interviewQuestion db))
       (scoreTable db)"

definition with_status :: "string \<Rightarrow> SessionStatus \<Rightarrow> database \<Rightarrow> database" where
  "with_status iid st db =
     db\<lparr>interviewSession :=
          (\<lambda>j. if j = iid then map_option (\<lambda>s. s\<lparr>status := st\<rparr>) (interviewSession db j)
               else interviewSession db j)\<rparr>"

text \<open>
  \<open>references_ok\<close>: every score row refers to an existing session and to a question of the
  bank (the two foreign keys of the Score table).  \<open>body_data\<close> is the payload that the
  controller hands to \<open>upsertScore\<close>.  \<open>example_scored_db\<close> is the example database with
  one stored score.
\<close>

definition references_ok :: "database \<Rightarrow> bool" where
  "references_ok db =
     list_all (\<lambda>r. interviewSession db (interviewId r) \<noteq> None \<and> questionId r \<in> question db)
       (scoreTable db)"

definition body_data :: "upsert_body \<Rightarrow> upsert_data" where
  "body_data b =
     \<lparr>data_interviewId = body_interviewId b, data_questionId = body_questionId b,
      data_score = score_int (body_score b), data_notes = body_notes b\<rparr>"

definition example_scored_db :: database where
  "example_scored_db =
     (example_db IN_PROGRESS)
       \<lparr>scoreTable := [\<lparr>interviewId = ''i1'', questionId = ''q1'', score = 4, notes = Some ''ok''\<rparr>]\<rparr>"

text \<open>
  \<open>request_of\<close> is the request body that \<open>saveScores\<close> builds from one buffer entry;
  \<open>example_buffer\<close> holds a scored entry and a notes-only entry.
\<close>

definition request_of :: "string \<Rightarrow> string \<times> buffer_entry \<Rightarrow> upsert_body" where
  "request_of iid p =
     \<lparr>body_interviewId = iid, body_questionId = fst p,
      body_score = JNumber (of_int (entry_score (snd p))),
      body_notes = Some (entry_notes (snd p))\<rparr>"

definition example_buffer :: buffer where
  "example_buffer =
     [(''q1'', \<lparr>entry_score = 4, entry_notes = ''ok''\<rparr>),
      (''q2'', \<lparr>entry_score = 0, entry_notes = ''thinking''\<rparr>)]"

text \<open>
  Three loaded interviews.  The \<open>example_\<close> one has section Intro with three questions
  scored 5, 3, 4 and section Technical with two questions scored 1, 1.  The \<open>tie_\<close> one
  has the same two sections with questions scored (1, 2) and (1, 1, 1, 2, 2).  The
  \<open>rounding_\<close> one has three sections scored (1, 1, 2), (1, 1, 2) and (2).
\<close>

definition example_item :: "string \<Rightarrow> string \<Rightarrow> string \<Rightarrow> InterviewQuestionItem" where
  "example_item qid sid name =
     \<lparr>item_questionId = qid, question_sectionId = sid, question_section_name = name\<rparr>"

definition example_score :: "string \<Rightarrow> int \<Rightarrow> Score" where
  "example_score qid n = \<lparr>interviewId = ''i1'', questionId = qid, score = n, notes = None\<rparr>"

definition example_plan :: "SectionConfig list" where
  "example_plan =
     [\<lparr>sectionId = ''sA'', config_durationMinutes = 10, section_name = ''Intro''\<rparr>,
      \<lparr>sectionId = ''sB'', config_durationMinutes = 20, section_name = ''Technical''\<rparr>]"

definition example_questions :: "InterviewQuestionItem list" where
  "example_questions =
     [example_item ''a1'' ''sA'' ''Intro'', example_item ''a2'' ''sA'' ''Intro'',
      example_item ''a3'' ''sA'' ''Intro'',
      example_item ''b1'' ''sB'' ''Technical'', example_item ''b2'' ''sB'' ''Technical'']"

definition example_scores :: "Score list" where
  "example_scores =
     [example_score ''a1'' 5, example_score ''a2'' 3, example_score ''a3'' 4,
      example_score ''b1'' 1, example_score ''b2'' 1]"

definition tie_questions :: "InterviewQuestionItem list" where
  "tie_questions =
     [example_item ''a1'' ''sA'' ''Intro'', example_item ''a2'' ''sA'' ''Intro'',
      example_item ''b1'' ''sB'' ''Technical'', example_item ''b2'' ''sB'' ''Technical'',
      example_item ''b3'' ''sB'' ''Technical'', example_item ''b4'' ''sB'' ''Technical'',
      example_item ''b5'' ''sB'' ''Technical'']"

definition tie_scores :: "Score list" where
  "tie_scores =
     [example_score ''a1'' 1, example_score ''a2'' 2,
      example_score ''b1'' 1, example_score ''b2'' 1, example_score ''b3'' 1,
      example_score ''b4'' 2, example_score ''b5'' 2]"

definition rounding_plan :: "SectionConfig list" where
  "rounding_plan =
     [\<lparr>sectionId = ''sA'', config_durationMinutes = 10, section_name = ''Intro''\<rparr>,
      \<lparr>sectionId = ''sB'', config_durationMinutes = 20, section_name = ''Technical''\<rparr>,
      \<lparr>sectionId = ''sC'', config_durationMinutes = 5, section_name = ''Wrap-up''\<rparr>]"

definition rounding_questions :: "InterviewQuestionItem list" where
  "rounding_questions =
     [example_item ''a1'' ''sA'' ''Intro'', example_item ''a2'' ''sA'' ''Intro'',
      example_item ''a3'' ''sA'' ''Intro'',
      example_item ''b1'' ''sB'' ''Technical'', example_item ''b2'' ''sB'' ''Technical'',
      example_item ''b3'' ''sB'' ''Technical'',
      example_item ''c1'' ''sC'' ''Wrap-up'']"

definition rounding_scores :: "Score list" where
  "rounding_scores =
     [example_score ''a1'' 1, example_score ''a2'' 1, example_score ''a3'' 2,
      example_score ''b1'' 1, example_score ''b2'' 1, example_score ''b3'' 2,
      example_score ''c1'' 2]"

definition rounding_interview :: Interview where
  "rounding_interview =
     \<lparr>sectionConfigs = rounding_plan, selectedQuestions = Some rounding_questions,
      scores = Some rounding_scores\<rparr>"

definition rounding_loaded :: InterviewData where
  "rounding_loaded =
     \<lparr>loaded_sectionConfigs = rounding_plan, loaded_selectedQuestions = rounding_questions,
      loaded_scores = rounding_scores\<rparr>"

section \<open>Section timer: remaining time and low-time flag\<close>

text \<open>
  Claim C6.  At every polling instant \<open>now\<close> the timer stores \<open>now - startTime\<close> and shows
  remaining = max(0, durationMinutes * 60000 - elapsed), which is never negative; the
  low-time flag \<open>warning\<close> holds exactly when remaining is below 60000 ms.  With a duration
  of one minute and an anchor 70 seconds in the past, remaining is 0 and the flag is set.
\<close>

theorem section_timer_remaining:
  "remaining (SectionTimer p (setElapsed p now))
     = max 0 (durationMinutes p * 60000 - (now - startTime p))
   \<and> 0 \<le> remaining (SectionTimer p (setElapsed p now))
   \<and> warning (SectionTimer p (setElapsed p now))
       = (remaining (SectionTimer p (setElapsed p now)) < 60000)
   \<and> remaining (SectionTimer \<lparr>startTime = t0, durationMinutes = 1\<rparr>
                  (setElapsed \<lparr>startTime = t0, durationMinutes = 1\<rparr> (t0 + 70000))) = 0
   \<and> warning (SectionTimer \<lparr>startTime = t0, durationMinutes = 1\<rparr>
                  (setElapsed \<lparr>startTime = t0, durationMinutes = 1\<rparr> (t0 + 70000)))"
  by (simp add: SectionTimer_def setElapsed_def totalMs_def Let_def)

section \<open>Session lifecycle\<close>

lemma startInterview_ok_iff:
  "(\<exists>s. fst (startInterview iid u db) = Inr s)
     = (\<exists>s0. interviewSession db iid = Some s0 \<and> interviewerId s0 = u \<and> status s0 = SETUP)"
  by (auto simp: startInterview_def split: option.splits)

lemma completeInterview_ok_iff:
  "(\<exists>s. fst (completeInterview iid u db) = Inr s)
     = (\<exists>s0. interviewSession db iid = Some s0 \<and> interviewerId s0 = u \<and> status s0 = IN_PROGRESS)"
  by (auto simp: completeInterview_def split: option.splits)

lemma startInterview_effect:
  "fst (startInterview iid u db) = Inr s \<Longrightarrow>
     status s = IN_PROGRESS \<and> interviewSession (snd (startInterview iid u db)) iid = Some s
     \<and> (\<forall>j. j \<noteq> iid \<longrightarrow> interviewSession (snd (startInterview iid u db)) j = interviewSession db j)"
  by (auto simp: startInterview_def set_status_def split: option.splits if_splits)

lemma completeInterview_effect:
  "fst (completeInterview iid u db) = Inr s \<Longrightarrow>
     status s = COMPLETED \<and> interviewSession (snd (completeInterview iid u db)) iid = Some s
     \<and> (\<forall>j. j \<noteq> iid \<longrightarrow> interviewSession (snd (completeInterview iid u db)) j = interviewSession db j)"
  by (auto simp: completeInterview_def set_status_def split: option.splits if_splits)

lemma startInterview_error:
  "fst (startInterview iid u db) = Inl e \<Longrightarrow> snd (startInterview iid u db) = db"
  by (auto simp: startInterview_def split: option.splits if_splits)

lemma completeInterview_error:
  "fst (completeInterview iid u db) = Inl e \<Longrightarrow> snd (completeInterview iid u db) = db"
  by (auto simp: completeInterview_def split: option.splits if_splits)

lemma startInterview_again:
  assumes "interviewSession db iid = Some s0" "interviewerId s0 = u"
  shows "fst (startInterview iid u (snd (startInterview iid u db))) = Inl Only_SETUP"
proof (cases "status s0 = SETUP")
  case True
  then show ?thesis using assms by (simp add: startInterview_def set_status_def)
next
  case False
  then show ?thesis using assms by (simp add: startInterview_def)
qed

lemma start_twice:
  "fst (start iid u db) = Json s \<Longrightarrow>
     fst (start iid u (snd (start iid u db))) = Error 400 ''Can only start interviews in SETUP status''"
  by (auto simp: start_def startInterview_def set_status_def split: option.splits if_splits)

text \<open>
  Claim C5.  \<open>startInterview\<close> succeeds exactly for the owner of a session in SETUP and
  leaves it IN_PROGRESS; \<open>completeInterview\<close> succeeds exactly for the owner of a session in
  IN_PROGRESS and leaves it COMPLETED; no other session changes; every failing call
  returns an error and leaves the database as it was; whatever the status of the session,
  the second of two \<open>startInterview\<close> calls by its owner fails with the SETUP-status error,
  which \<open>start\<close> answers with HTTP 400.
\<close>

theorem session_status_forward:
  "((\<exists>s. fst (startInterview iid u db) = Inr s)
      = (\<exists>s0. interviewSession db iid = Some s0 \<and> interviewerId s0 = u \<and> status s0 = SETUP))
   \<and> ((\<exists>s. fst (completeInterview iid u db) = Inr s)
      = (\<exists>s0. interviewSession db iid = Some s0 \<and> interviewerId s0 = u \<and> status s0 = IN_PROGRESS))
   \<and> (\<forall>s. fst (startInterview iid u db) = Inr s \<longrightarrow>
          status s = IN_PROGRESS \<and> interviewSession (snd (startInterview iid u db)) iid = Some s
          \<and> (\<forall>j. j \<noteq> iid \<longrightarrow>
                interviewSession (snd (startInterview iid u db)) j = interviewSession db j))
   \<and> (\<forall>s. fst (completeInterview iid u db) = Inr s \<longrightarrow>
          status s = COMPLETED \<and> interviewSession (snd (completeInterview iid u db)) iid = Some s
          \<and> (\<forall>j. j \<noteq> iid \<longrightarrow>
                interviewSession (snd (completeInterview iid u db)) j = interviewSession db j))
   \<and> (\<forall>e. fst (startInterview iid u db) = Inl e \<longrightarrow> snd (startInterview iid u db) = db)
   \<and> (\<forall>e. fst (completeInterview iid u db) = Inl e \<longrightarrow> snd (completeInterview iid u db) = db)
   \<and> (\<forall>s0. interviewSession db iid = Some s0 \<and> interviewerId s0 = u \<longrightarrow>
          fst (startInterview iid u (snd (startInterview iid u db))) = Inl Only_SETUP)
   \<and> (\<forall>s. fst (start iid u db) = Json s \<longrightarrow>
          fst (start iid u (snd (start iid u db)))
            = Error 400 ''Can only start interviews in SETUP status'')"
  using startInterview_ok_iff [of iid u db] completeInterview_ok_iff [of iid u db]
    startInterview_effect [of iid u db] completeInterview_effect [of iid u db]
    startInterview_error [of iid u db] completeInterview_error [of iid u db]
    startInterview_again [of db iid _ u] start_twice [of iid u db]
  by blast

theorem session_status_forward_witness:
  "fst (startInterview ''i1'' ''alice'' (example_db SETUP)) = Inr (example_session IN_PROGRESS)
   \<and> fst (startInterview ''i1'' ''alice'' (snd (startInterview ''i1'' ''alice'' (example_db SETUP))))
       = Inl Only_SETUP
   \<and> fst (completeInterview ''i1'' ''alice'' (example_db SETUP)) = Inl Only_IN_PROGRESS
   \<and> snd (completeInterview ''i1'' ''alice'' (example_db SETUP)) = example_db SETUP"
proof -
  have s: "fst (startInterview ''i1'' ''alice'' (example_db SETUP)) = Inr (example_session IN_PROGRESS)"
    by (simp add: startInterview_def example_db_def example_session_def)
  have c: "fst (completeInterview ''i1'' ''alice'' (example_db SETUP)) = Inl Only_IN_PROGRESS"
    by (simp add: completeInterview_def example_db_def example_session_def)
  have o: "interviewSession (example_db SETUP) ''i1'' = Some (example_session SETUP)
           \<and> interviewerId (example_session SETUP) = ''alice''"
    by (simp add: example_db_def example_session_def)
  show ?thesis
    using s c o session_status_forward [of "''i1''" "''alice''" "example_db SETUP"] by blast
qed

section \<open>Checks of the score endpoint\<close>

lemma isInteger_of_int [simp]: "isInteger (JNumber (of_int n))"
  by (simp add: isInteger_def)

lemma valid_score_iff:
  "(isInteger v \<and> \<not> score_out_of_range v) = (\<exists>n::int. 1 \<le> n \<and> n \<le> 5 \<and> v = JNumber (of_int n))"
proof (cases v)
  case (JNumber x)
  show ?thesis
  proof
    assume a: "isInteger v \<and> \<not> score_out_of_range v"
    then have "x = of_int \<lfloor>x\<rfloor>" and r: "1 \<le> x" "x \<le> 5"
      using JNumber by (auto simp: isInteger_def score_out_of_range_def)
    then obtain n :: int where n: "x = of_int n" by blast
    have "1 \<le> n" "n \<le> 5" using r unfolding n by simp_all
    then show "\<exists>n::int. 1 \<le> n \<and> n \<le> 5 \<and> v = JNumber (of_int n)"
      using n JNumber by blast
  next
    assume "\<exists>n::int. 1 \<le> n \<and> n \<le> 5 \<and> v = JNumber (of_int n)"
    then show "isInteger v \<and> \<not> score_out_of_range v"
      by (auto simp: isInteger_def score_out_of_range_def)
  qed
qed (auto simp: isInteger_def score_out_of_range_def)

lemma upsert_invalid_score:
  "body_interviewId b \<noteq> [] \<Longrightarrow> body_questionId b \<noteq> [] \<Longrightarrow> body_score b \<noteq> JUndefined \<Longrightarrow>
   \<not> isInteger (body_score b) \<or> score_out_of_range (body_score b) \<Longrightarrow>
   upsert u b db = (Error 400 ''score must be an integer between 1 and 5'', db)"
  by (simp add: upsert_def)

lemma upsert_not_owner:
  "body_interviewId b \<noteq> [] \<Longrightarrow> body_questionId b \<noteq> [] \<Longrightarrow>
   isInteger (body_score b) \<Longrightarrow> \<not> score_out_of_range (body_score b) \<Longrightarrow>
   interviewSession db (body_interviewId b) = Some s \<Longrightarrow> interviewerId s \<noteq> u \<Longrightarrow>
   upsert u b db = (Error 403 ''Unauthorized'', db)"
  by (auto simp: upsert_def isInteger_def)

lemma upsert_owner:
  "body_interviewId b \<noteq> [] \<Longrightarrow> body_questionId b \<noteq> [] \<Longrightarrow>
   isInteger (body_score b) \<Longrightarrow> \<not> score_out_of_range (body_score b) \<Longrightarrow>
   interviewSession db (body_interviewId b) = Some s \<Longrightarrow> interviewerId s = u \<Longrightarrow>
   upsert u b db =
     (case upsertScore
             \<lparr>data_interviewId = body_interviewId b, data_questionId = body_questionId b,
              data_score = score_int (body_score b), data_notes = body_notes b\<rparr> db of
        (Inr result, db') \<Rightarrow> (Json result, db')
      | (Inl err, db') \<Rightarrow> (Error 500 ''Internal server error'', db'))"
  by (auto simp: upsert_def isInteger_def)

text \<open>
  Claim C7.  A request that carries interviewId, questionId and a score is rejected with
  the score error (400) when the score is not an integer in [1,5]; with an integer score
  in [1,5] for an existing session it is rejected with Unauthorized (403) when the caller
  is not the owner of the session, and from the owner it passes these checks, the outcome
  being that of \<open>upsertScore\<close>.  The score check comes first, so a request failing both
  checks gets the score error.  A rejected request leaves the database unchanged.
\<close>

theorem upsert_checks:
  "body_interviewId b \<noteq> [] \<and> body_questionId b \<noteq> [] \<and> body_score b \<noteq> JUndefined \<longrightarrow>
     ((\<not> (\<exists>n::int. 1 \<le> n \<and> n \<le> 5 \<and> body_score b = JNumber (of_int n))) \<longrightarrow>
        upsert u b db = (Error 400 ''score must be an integer between 1 and 5'', db))
     \<and> ((\<exists>n::int. 1 \<le> n \<and> n \<le> 5 \<and> body_score b = JNumber (of_int n)) \<longrightarrow>
          (\<forall>s. interviewSession db (body_interviewId b) = Some s \<longrightarrow>
             (interviewerId s \<noteq> u \<longrightarrow> upsert u b db = (Error 403 ''Unauthorized'', db))
             \<and> (interviewerId s = u \<longrightarrow>
                  upsert u b db =
                    (case upsertScore
                            \<lparr>data_interviewId = body_interviewId b,
                             data_questionId = body_questionId b,
                             data_score = score_int (body_score b),
                             data_notes = body_notes b\<rparr> db of
                       (Inr result, db') \<Rightarrow> (Json result, db')
                     | (Inl err, db') \<Rightarrow> (Error 500 ''Internal server error'', db')))))"
  using upsert_invalid_score [of b u db] upsert_not_owner [of b db _ u] upsert_owner [of b db _ u]
    valid_score_iff [of "body_score b"]
  by blast

theorem upsert_checks_witness:
  "upsert ''mallory'' (example_body ''q1'' 3) (example_db IN_PROGRESS)
     = (Error 403 ''Unauthorized'', example_db IN_PROGRESS)
   \<and> upsert ''alice'' (example_body ''q1'' (7 / 2)) (example_db IN_PROGRESS)
     = (Error 400 ''score must be an integer between 1 and 5'', example_db IN_PROGRESS)
   \<and> fst (upsert ''alice'' (example_body ''q1'' 3) (example_db IN_PROGRESS))
     = Json \<lparr>interviewId = ''i1'', questionId = ''q1'', score = 3, notes = None\<rparr>"
proof -
  have v: "\<exists>n::int. 1 \<le> n \<and> n \<le> 5 \<and> body_score (example_body ''q1'' 3) = JNumber (of_int n)"
    by (rule exI [of _ 3]) (simp add: example_body_def)
  have nv: "\<not> (\<exists>n::int. 1 \<le> n \<and> n \<le> 5 \<and> body_score (example_body ''q1'' (7 / 2)) = JNumber (of_int n))"
  proof
    assume "\<exists>n::int. 1 \<le> n \<and> n \<le> 5 \<and> body_score (example_body ''q1'' (7 / 2)) = JNumber (of_int n)"
    then obtain n :: int where "(7::rat) / 2 = of_int n" by (auto simp: example_body_def)
    then have "(7::rat) = of_int (2 * n)" by simp
    then have "(7::int) = 2 * n" using of_int_eq_iff [of 7 "2 * n", where ?'a = rat] by simp
    then show False by presburger
  qed
  have p: "body_interviewId (example_body q x) \<noteq> [] \<and> body_questionId (example_body ''q1'' x) \<noteq> []
           \<and> body_score (example_body q x) \<noteq> JUndefined" for q x
    by (simp add: example_body_def)
  have s: "interviewSession (example_db IN_PROGRESS) (body_interviewId (example_body ''q1'' x))
             = Some (example_session IN_PROGRESS)" for x
    by (simp add: example_db_def example_body_def)
  have o: "interviewerId (example_session IN_PROGRESS) = ''alice''"
          "interviewerId (example_session IN_PROGRESS) \<noteq> ''mallory''"
    by (simp_all add: example_session_def)
  have a: "upsert ''mallory'' (example_body ''q1'' 3) (example_db IN_PROGRESS)
             = (Error 403 ''Unauthorized'', example_db IN_PROGRESS)"
    using upsert_checks [of "example_body ''q1'' 3" "''mallory''" "example_db IN_PROGRESS"] v p s o
    by blast
  have b: "upsert ''alice'' (example_body ''q1'' (7 / 2)) (example_db IN_PROGRESS)
             = (Error 400 ''score must be an integer between 1 and 5'', example_db IN_PROGRESS)"
    using upsert_checks [of "example_body ''q1'' (7 / 2)" "''alice''" "example_db IN_PROGRESS"] nv p
    by blast
  have c: "fst (upsert ''alice'' (example_body ''q1'' 3) (example_db IN_PROGRESS))
             = Json \<lparr>interviewId = ''i1'', questionId = ''q1'', score = 3, notes = None\<rparr>"
    by (simp add: upsert_def upsertScore_def example_db_def example_session_def example_body_def
          isInteger_def score_out_of_range_def score_int_def create_row_def)
  show ?thesis using a b c by blast
qed


section \<open>Effect of the score endpoint on the database\<close>

lemma upsertScore_tables:
  "interviewSession (snd (upsertScore d db)) = interviewSession db
   \<and> question (snd (upsertScore d db)) = question db
   \<and> interviewQuestion (snd (upsertScore d db)) = interviewQuestion db
   \<and> interviewSectionConfig (snd (upsertScore d db)) = interviewSectionConfig db"
  by (simp add: upsertScore_def split: option.splits)

lemma snd_upsert:
  "snd (upsert u b db) = db \<or> snd (upsert u b db) = snd (upsertScore (body_data b) db)"
proof (cases "upsertScore (body_data b) db")
  case (Pair r db')
  then show ?thesis
    by (cases r; cases "interviewSession db (body_interviewId b)")
       (simp_all add: upsert_def body_data_def)
qed

lemma upsert_tables:
  "interviewSession (snd (upsert u b db)) = interviewSession db
   \<and> question (snd (upsert u b db)) = question db
   \<and> interviewQuestion (snd (upsert u b db)) = interviewQuestion db
   \<and> interviewSectionConfig (snd (upsert u b db)) = interviewSectionConfig db"
proof -
  consider "snd (upsert u b db) = db" | "snd (upsert u b db) = snd (upsertScore (body_data b) db)"
    using snd_upsert [of u b db] by blast
  then show ?thesis
  proof cases
    case 1
    then show ?thesis by (simp only:)
  next
    case 2
    then show ?thesis by (simp only: upsertScore_tables)
  qed
qed

lemma handle_requests_tables:
  "interviewSession (handle_requests u reqs db) = interviewSession db
   \<and> question (handle_requests u reqs db) = question db
   \<and> interviewQuestion (handle_requests u reqs db) = interviewQuestion db"
proof (induction reqs arbitrary: db)
  case Nil
  then show ?case by (simp add: handle_requests_def)
next
  case (Cons b reqs)
  have "handle_requests u (b # reqs) db = handle_requests u reqs (snd (upsert u b db))"
    by (simp add: handle_requests_def)
  then show ?case using Cons.IH [of "snd (upsert u b db)"] upsert_tables [of u b db] by simp
qed

lemma upsertScore_Inr:
  "interviewSession db (data_interviewId d) \<noteq> None \<Longrightarrow> data_questionId d \<in> question db \<Longrightarrow>
   upsertScore d db =
     (case find (same_key d) (scoreTable db) of
        Some r \<Rightarrow>
          (Inr (apply_update d r),
           db\<lparr>scoreTable := map (\<lambda>x. if same_key d x then apply_update d x else x) (scoreTable db)\<rparr>)
      | None \<Rightarrow> (Inr (create_row d), db\<lparr>scoreTable := scoreTable db @ [create_row d]\<rparr>))"
  by (simp add: upsertScore_def split: option.splits)

lemma upsertScore_row:
  assumes "upsertScore d db = (Inr row, db')"
  shows "row \<in> set (scoreTable db') \<and> interviewId row = data_interviewId d
         \<and> questionId row = data_questionId d \<and> score row = data_score d
         \<and> (\<forall>t. data_notes d = Some t \<longrightarrow> notes row = Some t)"
proof (cases "find (same_key d) (scoreTable db)")
  case None
  then show ?thesis using assms
    by (auto simp: upsertScore_def create_row_def split: if_splits)
next
  case (Some r)
  then have r: "r \<in> set (scoreTable db)" "same_key d r"
    by (auto simp: find_Some_iff)
  have row: "row = apply_update d r"
    and db': "scoreTable db' = map (\<lambda>x. if same_key d x then apply_update d x else x) (scoreTable db)"
    using assms Some by (auto simp: upsertScore_def)
  have "row \<in> set (scoreTable db')" unfolding db' row using r by force
  then show ?thesis using r row by (auto simp: apply_update_def same_key_def)
qed

lemma upsertScore_all_rows:
  assumes "upsertScore d db = (Inr row, db')" and "r \<in> set (scoreTable db')" and "same_key d r"
  shows "score r = data_score d \<and> (\<forall>t. data_notes d = Some t \<longrightarrow> notes r = Some t)"
proof (cases "find (same_key d) (scoreTable db)")
  case None
  then have no: "\<forall>x\<in>set (scoreTable db). \<not> same_key d x" by (simp add: find_None_iff)
  have "scoreTable db' = scoreTable db @ [create_row d]"
    using assms(1) None by (auto simp: upsertScore_def split: if_splits)
  then have "r = create_row d" using assms(2,3) no by auto
  then show ?thesis by (simp add: create_row_def)
next
  case (Some r0)
  have "scoreTable db' = map (\<lambda>x. if same_key d x then apply_update d x else x) (scoreTable db)"
    using assms(1) Some by (auto simp: upsertScore_def)
  then obtain x where "x \<in> set (scoreTable db)" "r = (if same_key d x then apply_update d x else x)"
    using assms(2) by auto
  then show ?thesis using assms(3) by (auto simp: apply_update_def split: if_splits)
qed

lemma upsert_success:
  assumes "body_interviewId b \<noteq> []" "body_questionId b \<noteq> []"
    and "1 \<le> n" "n \<le> 5" "body_score b = JNumber (of_int n)"
    and "interviewSession db (body_interviewId b) = Some s" "interviewerId s = u"
    and "body_questionId b \<in> question db"
  shows "\<exists>row db'. upsert u b db = (Json row, db')
           \<and> upsertScore (body_data b) db = (Inr row, db')
           \<and> data_score (body_data b) = n"
proof -
  have v: "isInteger (body_score b)" "\<not> score_out_of_range (body_score b)"
    using assms(3,4,5) by (simp_all add: isInteger_def score_out_of_range_def)
  have "\<exists>row db'. upsertScore (body_data b) db = (Inr row, db')"
    using upsertScore_Inr [of db "body_data b"] assms(6,8)
    by (auto simp: body_data_def split: option.splits)
  then obtain row db' where row: "upsertScore (body_data b) db = (Inr row, db')"
    by blast
  have u: "body_score b \<noteq> JUndefined" using assms(5) by simp
  have "upsert u b db = (Json row, db')"
    using assms(1,2,6,7) v u row by (simp add: upsert_def body_data_def)
  moreover have "data_score (body_data b) = n"
    using assms(5) by (simp add: body_data_def score_int_def)
  ultimately show ?thesis using row by blast
qed

lemma with_status_scoreTable [simp]: "scoreTable (with_status iid st db) = scoreTable db"
  by (simp add: with_status_def)

lemma with_status_question [simp]: "question (with_status iid st db) = question db"
  by (simp add: with_status_def)

lemma with_status_None:
  "(interviewSession (with_status iid st db) j = None) = (interviewSession db j = None)"
  by (simp add: with_status_def)

lemma with_status_Some:
  "interviewSession db j = Some s \<Longrightarrow>
   \<exists>s'. interviewSession (with_status iid st db) j = Some s' \<and> interviewerId s' = interviewerId s"
  by (auto simp: with_status_def)

lemma upsertScore_with_status:
  "fst (upsertScore d (with_status iid st db)) = fst (upsertScore d db)
   \<and> scoreTable (snd (upsertScore d (with_status iid st db))) = scoreTable (snd (upsertScore d db))"
  by (cases "find (same_key d) (scoreTable db)") (simp_all add: upsertScore_def with_status_None)

lemma upsert_with_status:
  "fst (upsert u b (with_status iid st db)) = fst (upsert u b db)
   \<and> scoreTable (snd (upsert u b (with_status iid st db))) = scoreTable (snd (upsert u b db))"
proof (cases "interviewSession db (body_interviewId b)")
  case None
  then have "interviewSession (with_status iid st db) (body_interviewId b) = None"
    by (simp add: with_status_None)
  with None show ?thesis by (simp add: upsert_def)
next
  case (Some s)
  then obtain s' where s': "interviewSession (with_status iid st db) (body_interviewId b) = Some s'"
    and o: "interviewerId s' = interviewerId s"
    using with_status_Some [of db "body_interviewId b" s iid st] by blast
  obtain r db' where r: "upsertScore (body_data b) db = (r, db')"
    by (cases "upsertScore (body_data b) db")
  obtain r2 db2 where r2: "upsertScore (body_data b) (with_status iid st db) = (r2, db2)"
    by (cases "upsertScore (body_data b) (with_status iid st db)")
  have e: "r2 = r" "scoreTable db2 = scoreTable db'"
    using upsertScore_with_status [of "body_data b" iid st db] r r2 by simp_all
  show ?thesis
    using Some s' o r r2 e by (cases r) (simp_all add: upsert_def body_data_def)
qed

lemma handleNextSection_completes:
  assumes "page_id pg \<noteq> []" and "\<not> int (currentSectionIdx pg) < int (sectionCount pg) - 1"
    and "interviewSession db (page_id pg) = Some s" "interviewerId s = u" "status s = IN_PROGRESS"
  shows "map_option status (interviewSession (snd (handleNextSection u now pg db)) (page_id pg))
           = Some COMPLETED"
proof -
  let ?db1 = "handle_requests u (saveScores (page_id pg) (scores_buffer pg)) db"
  have s1: "interviewSession ?db1 (page_id pg) = Some s"
    using handle_requests_tables [of u _ db] assms(3) by simp
  have "snd (handleNextSection u now pg db) = snd (complete (page_id pg) u ?db1)"
    using assms(1,2) by (simp add: handleNextSection_def Let_def)
  moreover have "map_option status (interviewSession (snd (complete (page_id pg) u ?db1)) (page_id pg))
                   = Some COMPLETED"
    using s1 assms(4,5) by (simp add: complete_def completeInterview_def set_status_def)
  ultimately show ?thesis by simp
qed

lemma upsert_stores:
  assumes "body_interviewId b \<noteq> []" "body_questionId b \<noteq> []"
    and "1 \<le> n" "n \<le> 5" "body_score b = JNumber (of_int n)"
    and "interviewSession db (body_interviewId b) = Some s" "interviewerId s = u"
    and "body_questionId b \<in> question db"
  shows "\<exists>row. fst (upsert u b db) = Json row \<and> row \<in> set (scoreTable (snd (upsert u b db)))
           \<and> interviewId row = body_interviewId b \<and> questionId row = body_questionId b
           \<and> score row = n \<and> (\<forall>t. body_notes b = Some t \<longrightarrow> notes row = Some t)"
proof -
  obtain row db' where u: "upsert u b db = (Json row, db')"
    and r: "upsertScore (body_data b) db = (Inr row, db')" and n: "data_score (body_data b) = n"
    using upsert_success [OF assms] by blast
  show ?thesis
    using upsertScore_row [OF r] u n by (simp add: body_data_def)
qed

section \<open>Which questions can be scored\<close>

lemma references_ok_iff:
  "references_ok db =
     (\<forall>r\<in>set (scoreTable db). interviewSession db (interviewId r) \<noteq> None \<and> questionId r \<in> question db)"
  by (simp add: references_ok_def list_all_iff)

lemma upsertScore_references_ok:
  assumes "references_ok db"
  shows "references_ok (snd (upsertScore d db))"
proof (cases "find (same_key d) (scoreTable db)")
  case None
  then show ?thesis using assms
    by (auto simp: upsertScore_def references_ok_iff create_row_def)
next
  case (Some r)
  then show ?thesis using assms
    by (auto simp: upsertScore_def references_ok_iff apply_update_def)
qed

lemma upsert_references_ok:
  assumes "references_ok db"
  shows "references_ok (snd (upsert u b db))"
proof -
  consider "snd (upsert u b db) = db" | "snd (upsert u b db) = snd (upsertScore (body_data b) db)"
    using snd_upsert [of u b db] by blast
  then show ?thesis
  proof cases
    case 1
    then show ?thesis using assms by (simp only:)
  next
    case 2
    then show ?thesis using upsertScore_references_ok [OF assms, of "body_data b"] by (simp only:)
  qed
qed

lemma set_status_references_ok:
  "references_ok db \<Longrightarrow> references_ok (set_status iid s st db)"
  by (simp add: references_ok_iff set_status_def)

lemma set_status_question: "question (set_status iid s st db) = question db"
  by (simp add: set_status_def)

lemma snd_startInterview:
  "snd (startInterview iid u db) = db
   \<or> (\<exists>s. snd (startInterview iid u db) = set_status iid s IN_PROGRESS db)"
  by (cases "interviewSession db iid") (auto simp: startInterview_def)

lemma snd_completeInterview:
  "snd (completeInterview iid u db) = db
   \<or> (\<exists>s. snd (completeInterview iid u db) = set_status iid s COMPLETED db)"
  by (cases "interviewSession db iid") (auto simp: completeInterview_def)

lemma snd_start: "snd (start iid u db) = snd (startInterview iid u db)"
proof (cases "startInterview iid u db")
  case (Pair r db')
  then show ?thesis
  proof (cases r)
    case (Inl e)
    with Pair show ?thesis by (cases e) (simp_all add: start_def)
  next
    case (Inr s)
    with Pair show ?thesis by (simp add: start_def)
  qed
qed

lemma snd_complete: "snd (complete iid u db) = snd (completeInterview iid u db)"
proof (cases "completeInterview iid u db")
  case (Pair r db')
  then show ?thesis
  proof (cases r)
    case (Inl e)
    with Pair show ?thesis by (cases e) (simp_all add: complete_def)
  next
    case (Inr s)
    with Pair show ?thesis by (simp add: complete_def)
  qed
qed

lemma snd_remove: "snd (remove iid u db) = snd (deleteInterview iid u db)"
proof (cases "deleteInterview iid u db")
  case (Pair r db')
  then show ?thesis
  proof (cases r)
    case (Inl e)
    with Pair show ?thesis by (cases e) (simp_all add: remove_def)
  next
    case (Inr s)
    with Pair show ?thesis by (simp add: remove_def)
  qed
qed

lemma deleteInterview_references_ok:
  assumes "references_ok db"
  shows "references_ok (snd (deleteInterview iid u db)) \<and> question (snd (deleteInterview iid u db)) = question db"
proof (cases "interviewSession db iid")
  case None
  then show ?thesis using assms by (simp add: deleteInterview_def)
next
  case (Some s)
  then show ?thesis using assms by (simp add: deleteInterview_def references_ok_iff)
qed

lemma perform_references_ok:
  assumes "references_ok db"
  shows "references_ok (perform op db) \<and> question (perform op db) = question db"
proof (cases op)
  case (Upsert u b)
  then show ?thesis using upsert_references_ok [OF assms, of u b] upsert_tables [of u b db] by simp
next
  case (Start iid u)
  have "references_ok (snd (startInterview iid u db)) \<and> question (snd (startInterview iid u db)) = question db"
    using snd_startInterview [of iid u db] set_status_references_ok [OF assms] set_status_question assms
    by (elim disjE exE) (simp_all only:)
  then show ?thesis using Start by (simp add: snd_start)
next
  case (Complete iid u)
  have "references_ok (snd (completeInterview iid u db)) \<and> question (snd (completeInterview iid u db)) = question db"
    using snd_completeInterview [of iid u db] set_status_references_ok [OF assms] set_status_question assms
    by (elim disjE exE) (simp_all only:)
  then show ?thesis using Complete by (simp add: snd_complete)
next
  case (Remove iid u)
  then show ?thesis using deleteInterview_references_ok [OF assms, of iid u] by (simp add: snd_remove)
qed

lemma run_references_ok:
  "references_ok db \<Longrightarrow>
   references_ok (foldl (\<lambda>d op. perform op d) db ops)
   \<and> question (foldl (\<lambda>d op. perform op d) db ops) = question db"
proof (induction ops arbitrary: db)
  case Nil
  then show ?case by simp
next
  case (Cons op ops)
  have p: "references_ok (perform op db)" "question (perform op db) = question db"
    using perform_references_ok [OF Cons.prems, of op] by simp_all
  show ?case using Cons.IH [OF p(1)] p(2) by simp
qed

lemma upsert_outside_selection:
  assumes "body_interviewId b \<noteq> []" "body_questionId b \<noteq> []"
    and "1 \<le> n" "n \<le> 5" "body_score b = JNumber (of_int n)"
    and "interviewSession db (body_interviewId b) = Some s" "interviewerId s = u"
    and "body_questionId b \<in> question db"
    and "\<not> list_ex (\<lambda>iq. iq_interviewId iq = body_interviewId b \<and> iq_questionId iq = body_questionId b)
             (interviewQuestion db)"
  shows "(\<exists>row\<in>set (scoreTable (snd (upsert u b db))).
            interviewId row = body_interviewId b \<and> questionId row = body_questionId b)
         \<and> \<not> selection_ok (snd (upsert u b db))"
proof -
  obtain row where row: "row \<in> set (scoreTable (snd (upsert u b db)))"
    "interviewId row = body_interviewId b" "questionId row = body_questionId b"
    using upsert_stores [OF assms(1-8)] by blast
  have q: "interviewQuestion (snd (upsert u b db)) = interviewQuestion db"
    using upsert_tables [of u b db] by simp
  have "\<not> list_ex (\<lambda>iq. iq_interviewId iq = interviewId row \<and> iq_questionId iq = questionId row)
            (interviewQuestion (snd (upsert u b db)))"
    using assms(9) row(2,3) q by simp
  then have "\<not> selection_ok (snd (upsert u b db))"
    using row(1) unfolding selection_ok_def list_all_iff by blast
  then show ?thesis using row by blast
qed

text \<open>
  Claim C3, as stated, fails: question q2 is in the bank but not selected for interview
  i1, and an upsert by the owner creates a score row for it.
\<close>

theorem selection_counterexample:
  "selection_ok (example_db IN_PROGRESS)
   \<and> \<not> selection_ok (snd (upsert ''alice'' (example_body ''q2'' 3) (example_db IN_PROGRESS)))"
  by code_simp


text \<open>
  Claim C3, amended.  After any sequence of upsert, start, complete and delete requests
  every score row refers to an existing session and to a question of the bank; the bank
  itself is not changed.  Membership in the session's selection is not checked: an upsert
  by the owner with an integer score in [1,5] for a bank question outside the selection
  creates a row.
\<close>

theorem score_references:
  "(references_ok db \<longrightarrow>
      references_ok (foldl (\<lambda>d op. perform op d) db ops)
      \<and> question (foldl (\<lambda>d op. perform op d) db ops) = question db)
   \<and> (body_interviewId b \<noteq> [] \<and> body_questionId b \<noteq> [] \<and> 1 \<le> n \<and> n \<le> 5
        \<and> body_score b = JNumber (of_int n)
        \<and> interviewSession db (body_interviewId b) = Some s \<and> interviewerId s = u
        \<and> body_questionId b \<in> question db
        \<and> \<not> list_ex (\<lambda>iq. iq_interviewId iq = body_interviewId b
                              \<and> iq_questionId iq = body_questionId b) (interviewQuestion db)
      \<longrightarrow> (\<exists>row\<in>set (scoreTable (snd (upsert u b db))).
              interviewId row = body_interviewId b \<and> questionId row = body_questionId b)
          \<and> \<not> selection_ok (snd (upsert u b db)))"
  using run_references_ok [of db ops] upsert_outside_selection [of b n db s u]
  by blast

theorem score_references_witness:
  "references_ok (example_db IN_PROGRESS)
   \<and> references_ok
        (foldl (\<lambda>d op. perform op d) (example_db IN_PROGRESS)
           [Upsert ''alice'' (example_body ''q2'' 3), Complete ''i1'' ''alice''])
   \<and> \<not> selection_ok (snd (upsert ''alice'' (example_body ''q2'' 3) (example_db IN_PROGRESS)))"
proof -
  have r: "references_ok (example_db IN_PROGRESS)"
    by (simp add: references_ok_def example_db_def)
  have h: "body_interviewId (example_body ''q2'' 3) \<noteq> [] \<and> body_questionId (example_body ''q2'' 3) \<noteq> []
        \<and> (1::int) \<le> 3 \<and> (3::int) \<le> 5 \<and> body_score (example_body ''q2'' 3) = JNumber (of_int 3)
        \<and> interviewSession (example_db IN_PROGRESS) (body_interviewId (example_body ''q2'' 3))
            = Some (example_session IN_PROGRESS)
        \<and> interviewerId (example_session IN_PROGRESS) = ''alice''
        \<and> body_questionId (example_body ''q2'' 3) \<in> question (example_db IN_PROGRESS)
        \<and> \<not> list_ex (\<lambda>iq. iq_interviewId iq = body_interviewId (example_body ''q2'' 3)
                              \<and> iq_questionId iq = body_questionId (example_body ''q2'' 3))
                 (interviewQuestion (example_db IN_PROGRESS))"
    by (simp add: example_db_def example_session_def example_body_def)
  show ?thesis
    using r h score_references [of "example_db IN_PROGRESS"
        "[Upsert ''alice'' (example_body ''q2'' 3), Complete ''i1'' ''alice'']"
        "example_body ''q2'' 3" 3 "example_session IN_PROGRESS" "''alice''"]
    by blast
qed

section \<open>Reading back a score\<close>

lemma upsert_Json:
  assumes "fst (upsert u b db) = Json row"
  shows "upsertScore (body_data b) db = (Inr row, snd (upsert u b db))
         \<and> isInteger (body_score b) \<and> \<not> score_out_of_range (body_score b)
         \<and> (\<exists>s. interviewSession db (body_interviewId b) = Some s \<and> interviewerId s = u)"
proof (cases "body_interviewId b = [] \<or> body_questionId b = [] \<or> body_score b = JUndefined
              \<or> \<not> isInteger (body_score b) \<or> score_out_of_range (body_score b)")
  case True
  then show ?thesis using assms by (auto simp: upsert_def)
next
  case False
  show ?thesis
  proof (cases "interviewSession db (body_interviewId b)")
    case None
    then show ?thesis using assms False by (simp add: upsert_def)
  next
    case (Some s)
    show ?thesis
    proof (cases "interviewerId s = u")
      case no: False
      then show ?thesis using assms False Some by (simp add: upsert_def)
    next
      case True
      obtain r db' where r: "upsertScore (body_data b) db = (r, db')"
        by (cases "upsertScore (body_data b) db")
      show ?thesis
      proof (cases r)
        case (Inl e)
        then show ?thesis using assms False Some True r by (simp add: upsert_def body_data_def)
      next
        case (Inr row')
        then show ?thesis using assms False Some True r by (simp add: upsert_def body_data_def)
      qed
    qed
  qed
qed

text \<open>
  Claim C8.  When an upsert is answered with a score row, listing the scores of the
  session as the same user returns that row; every listed row of the question holds the
  score that was sent, and the notes when notes were sent.  The upsert is answered with a
  row for every integer score in [1,5] from the owner of the session, the question being
  one of the bank.
\<close>

theorem upsert_then_list:
  "(fst (upsert u b db) = Json row \<longrightarrow>
      (\<exists>rows. listByInterview u (body_interviewId b) (snd (upsert u b db)) = Json rows
         \<and> row \<in> set rows \<and> questionId row = body_questionId b
         \<and> (\<forall>r\<in>set rows. questionId r = body_questionId b \<longrightarrow>
               body_score b = JNumber (of_int (score r))
               \<and> (\<forall>t. body_notes b = Some t \<longrightarrow> notes r = Some t))))
   \<and> (body_interviewId b \<noteq> [] \<and> body_questionId b \<noteq> [] \<and> 1 \<le> n \<and> n \<le> 5
        \<and> body_score b = JNumber (of_int n)
        \<and> interviewSession db (body_interviewId b) = Some s \<and> interviewerId s = u
        \<and> body_questionId b \<in> question db \<longrightarrow>
        (\<exists>row'. fst (upsert u b db) = Json row' \<and> score row' = n))"
proof (intro conjI impI)
  assume j: "fst (upsert u b db) = Json row"
  let ?db' = "snd (upsert u b db)"
  let ?rows = "getScoresForInterview (body_interviewId b) ?db'"
  have r: "upsertScore (body_data b) db = (Inr row, ?db')"
    and i: "isInteger (body_score b)"
    and o: "\<exists>s. interviewSession db (body_interviewId b) = Some s \<and> interviewerId s = u"
    using upsert_Json [OF j] by simp_all
  have v: "body_score b = JNumber (of_int (score_int (body_score b)))"
    using i by (cases "body_score b") (simp_all add: isInteger_def score_int_def)
  have row: "row \<in> set (scoreTable ?db')" "interviewId row = body_interviewId b"
    "questionId row = body_questionId b"
    using upsertScore_row [OF r] by (simp_all add: body_data_def)
  have l: "listByInterview u (body_interviewId b) ?db' = Json ?rows"
    using upsert_tables [of u b db] o by (auto simp: listByInterview_def)
  have m: "row \<in> set ?rows" using row by (simp add: getScoresForInterview_def)
  have a: "body_score b = JNumber (of_int (score x))
           \<and> (\<forall>t. body_notes b = Some t \<longrightarrow> notes x = Some t)"
    if "x \<in> set ?rows" "questionId x = body_questionId b" for x
  proof -
    have x: "x \<in> set (scoreTable ?db')" "same_key (body_data b) x"
      using that by (simp_all add: getScoresForInterview_def same_key_def body_data_def)
    have d: "data_notes (body_data b) = body_notes b" "data_score (body_data b) = score_int (body_score b)"
      by (simp_all add: body_data_def)
    show ?thesis using upsertScore_all_rows [OF r x] d v by simp
  qed
  show "\<exists>rows. listByInterview u (body_interviewId b) ?db' = Json rows
         \<and> row \<in> set rows \<and> questionId row = body_questionId b
         \<and> (\<forall>r\<in>set rows. questionId r = body_questionId b \<longrightarrow>
               body_score b = JNumber (of_int (score r))
               \<and> (\<forall>t. body_notes b = Some t \<longrightarrow> notes r = Some t))"
    using l m row(3) a by blast
next
  assume h: "body_interviewId b \<noteq> [] \<and> body_questionId b \<noteq> [] \<and> 1 \<le> n \<and> n \<le> 5
        \<and> body_score b = JNumber (of_int n)
        \<and> interviewSession db (body_interviewId b) = Some s \<and> interviewerId s = u
        \<and> body_questionId b \<in> question db"
  then obtain row' where "fst (upsert u b db) = Json row'" "score row' = n"
    using upsert_stores [of b n db s u] by blast
  then show "\<exists>row'. fst (upsert u b db) = Json row' \<and> score row' = n" by blast
qed

theorem upsert_then_list_witness:
  "fst (upsert ''alice'' ((example_body ''q1'' 3)\<lparr>body_notes := Some ''good''\<rparr>) example_scored_db)
     = Json \<lparr>interviewId = ''i1'', questionId = ''q1'', score = 3, notes = Some ''good''\<rparr>
   \<and> listByInterview ''alice'' ''i1''
        (snd (upsert ''alice'' ((example_body ''q1'' 3)\<lparr>body_notes := Some ''good''\<rparr>) example_scored_db))
     = Json [\<lparr>interviewId = ''i1'', questionId = ''q1'', score = 3, notes = Some ''good''\<rparr>]"
proof -
  let ?b = "(example_body ''q1'' 3)\<lparr>body_notes := Some ''good''\<rparr>"
  let ?row = "\<lparr>interviewId = ''i1'', questionId = ''q1'', score = 3, notes = Some ''good''\<rparr>"
  have f: "fst (upsert ''alice'' ?b example_scored_db) = Json ?row"
    by code_simp
  have i: "body_interviewId ?b = ''i1''"
    by (simp add: example_body_def)
  have "\<exists>rows. listByInterview ''alice'' (body_interviewId ?b) (snd (upsert ''alice'' ?b example_scored_db))
           = Json rows \<and> ?row \<in> set rows"
    using f upsert_then_list [of "''alice''" ?b example_scored_db ?row 3 "example_session IN_PROGRESS"]
    by blast
  moreover have "listByInterview ''alice'' ''i1'' (snd (upsert ''alice'' ?b example_scored_db))
     = Json [?row]"
    by code_simp
  ultimately show ?thesis using f i by simp
qed

section \<open>Upsert without notes\<close>

lemma upsertScore_existing:
  assumes "r \<in> set (scoreTable db)" "same_key d r"
  shows "\<exists>r0. r0 \<in> set (scoreTable db) \<and> same_key d r0
           \<and> upsertScore d db =
               (Inr (apply_update d r0),
                db\<lparr>scoreTable := map (\<lambda>x. if same_key d x then apply_update d x else x) (scoreTable db)\<rparr>)"
proof (cases "find (same_key d) (scoreTable db)")
  case None
  then show ?thesis using assms by (auto simp: find_None_iff)
next
  case (Some r0)
  then have "r0 \<in> set (scoreTable db)" "same_key d r0" by (auto simp: find_Some_iff)
  then show ?thesis using Some by (auto simp: upsertScore_def)
qed

text \<open>
  Claim C10.  When a row for (interviewId, questionId) exists and an accepted upsert for
  the same key carries no notes, the score of that row is overwritten and the notes of
  every row stay as they were.
\<close>

theorem upsert_without_notes:
  assumes "fst (upsert u b db) = Json row" and "body_notes b = None"
    and "r \<in> set (scoreTable db)"
    and "interviewId r = body_interviewId b" and "questionId r = body_questionId b"
  shows "scoreTable (snd (upsert u b db))
           = map (\<lambda>x. if interviewId x = body_interviewId b \<and> questionId x = body_questionId b
                       then x\<lparr>score := score_int (body_score b)\<rparr> else x) (scoreTable db)
         \<and> map notes (scoreTable (snd (upsert u b db))) = map notes (scoreTable db)
         \<and> score row = score_int (body_score b)
         \<and> body_score b = JNumber (of_int (score_int (body_score b)))
         \<and> (\<exists>x\<in>set (scoreTable db). interviewId x = body_interviewId b
                \<and> questionId x = body_questionId b \<and> notes row = notes x)"
proof -
  let ?d = "body_data b"
  have j: "upsertScore ?d db = (Inr row, snd (upsert u b db))" and i: "isInteger (body_score b)"
    using upsert_Json [OF assms(1)] by simp_all
  have k: "same_key ?d x = (interviewId x = body_interviewId b \<and> questionId x = body_questionId b)" for x
    by (simp add: same_key_def body_data_def)
  have n: "apply_update ?d x = x\<lparr>score := score_int (body_score b)\<rparr>" for x
    using assms(2) by (simp add: apply_update_def body_data_def)
  obtain r0 where r0: "r0 \<in> set (scoreTable db)" "same_key ?d r0"
    and e: "upsertScore ?d db =
               (Inr (apply_update ?d r0),
                db\<lparr>scoreTable := map (\<lambda>x. if same_key ?d x then apply_update ?d x else x) (scoreTable db)\<rparr>)"
    using upsertScore_existing [of r db ?d] assms(3,4,5) k by blast
  have row: "row = r0\<lparr>score := score_int (body_score b)\<rparr>"
    using j e n by simp
  have sd: "snd (upsert u b db)
             = db\<lparr>scoreTable := map (\<lambda>x. if same_key ?d x then apply_update ?d x else x) (scoreTable db)\<rparr>"
    using j e by simp
  have t: "scoreTable (snd (upsert u b db))
            = map (\<lambda>x. if same_key ?d x then apply_update ?d x else x) (scoreTable db)"
    by (subst sd) simp
  have t1: "scoreTable (snd (upsert u b db))
           = map (\<lambda>x. if interviewId x = body_interviewId b \<and> questionId x = body_questionId b
                       then x\<lparr>score := score_int (body_score b)\<rparr> else x) (scoreTable db)"
    unfolding t k n ..
  have t2: "map notes (scoreTable (snd (upsert u b db))) = map notes (scoreTable db)"
    unfolding t1 by (induction "scoreTable db") auto
  have s: "body_score b = JNumber (of_int (score_int (body_score b)))"
    using i by (cases "body_score b") (simp_all add: isInteger_def score_int_def)
  show ?thesis using t1 t2 row r0 k s by auto
qed


theorem upsert_without_notes_witness:
  "fst (upsert ''alice'' (example_body ''q1'' 2) example_scored_db)
     = Json \<lparr>interviewId = ''i1'', questionId = ''q1'', score = 2, notes = Some ''ok''\<rparr>
   \<and> scoreTable (snd (upsert ''alice'' (example_body ''q1'' 2) example_scored_db))
     = [\<lparr>interviewId = ''i1'', questionId = ''q1'', score = 2, notes = Some ''ok''\<rparr>]
   \<and> map notes (scoreTable (snd (upsert ''alice'' (example_body ''q1'' 2) example_scored_db)))
     = [Some ''ok'']"
proof -
  let ?r = "\<lparr>interviewId = ''i1'', questionId = ''q1'', score = 4, notes = Some ''ok''\<rparr>"
  have f: "fst (upsert ''alice'' (example_body ''q1'' 2) example_scored_db)
     = Json \<lparr>interviewId = ''i1'', questionId = ''q1'', score = 2, notes = Some ''ok''\<rparr>"
    by code_simp
  have t: "scoreTable example_scored_db = [?r]"
    by (simp add: example_scored_db_def)
  have g: "body_notes (example_body ''q1'' 2) = None" "?r \<in> set (scoreTable example_scored_db)"
    "interviewId ?r = body_interviewId (example_body ''q1'' 2)"
    "questionId ?r = body_questionId (example_body ''q1'' 2)"
    by (simp_all add: example_body_def t)
  have "score_int (body_score (example_body ''q1'' 2)) = 2"
    by (simp add: example_body_def score_int_def)
  then show ?thesis
    using upsert_without_notes [OF f g] f t by (simp add: example_body_def)
qed


section \<open>Save cycle of the live page\<close>

lemma saveScores_eq:
  "saveScores iid buf =
     (if iid = [] then [] else map (request_of iid) (filter (\<lambda>p. 0 < entry_score (snd p)) buf))"
proof -
  have f: "(\<lambda>(qid, data).
              \<lparr>body_interviewId = iid, body_questionId = qid,
               body_score = JNumber (of_int (entry_score data)),
               body_notes = Some (entry_notes data)\<rparr>) = request_of iid"
    by (simp add: fun_eq_iff request_of_def)
  have g: "(\<lambda>(qid, data). entry_score data > 0) = (\<lambda>p. 0 < entry_score (snd p))"
    by (simp add: fun_eq_iff)
  show ?thesis unfolding saveScores_def f g by (cases buf) simp_all
qed

lemma saveScores_sound:
  assumes "b \<in> set (saveScores iid buf)"
  shows "body_interviewId b = iid
         \<and> (\<exists>e. (body_questionId b, e) \<in> set buf \<and> 0 < entry_score e
                \<and> body_score b = JNumber (of_int (entry_score e))
                \<and> body_notes b = Some (entry_notes e))"
proof -
  obtain p where "p \<in> set buf" "0 < entry_score (snd p)" "b = request_of iid p"
    using assms by (auto simp: saveScores_eq split: if_splits)
  then have "(body_questionId b, snd p) \<in> set buf" "body_interviewId b = iid"
    "body_score b = JNumber (of_int (entry_score (snd p)))"
    "body_notes b = Some (entry_notes (snd p))" "0 < entry_score (snd p)"
    by (simp_all add: request_of_def)
  then show ?thesis by blast
qed

lemma saveScores_complete:
  assumes "iid \<noteq> []" "(q, e) \<in> set buf" "0 < entry_score e"
  shows "\<lparr>body_interviewId = iid, body_questionId = q,
          body_score = JNumber (of_int (entry_score e)),
          body_notes = Some (entry_notes e)\<rparr> \<in> set (saveScores iid buf)"
proof -
  have "request_of iid (q, e) \<in> set (saveScores iid buf)"
    using assms by (auto simp: saveScores_eq)
  then show ?thesis by (simp add: request_of_def)
qed

lemma saveScores_distinct:
  assumes "distinct (map fst buf)"
  shows "distinct (map body_questionId (saveScores iid buf))"
proof -
  have k: "body_questionId \<circ> request_of iid = fst"
    by (simp add: fun_eq_iff request_of_def)
  have "distinct (map fst (filter (\<lambda>p. 0 < entry_score (snd p)) buf))"
    using assms by (rule distinct_map_filter)
  then show ?thesis by (simp add: saveScores_eq k)
qed

lemma saveScores_unscored:
  assumes "distinct (map fst buf)" "(q, e) \<in> set buf" "entry_score e \<le> 0"
  shows "q \<notin> body_questionId ` set (saveScores iid buf)"
proof
  assume "q \<in> body_questionId ` set (saveScores iid buf)"
  then obtain b where b: "b \<in> set (saveScores iid buf)" "body_questionId b = q" by auto
  then obtain e' where e': "(q, e') \<in> set buf" "0 < entry_score e'"
    using saveScores_sound [OF b(1)] by auto
  have "e' = e" using assms(1,2) e'(1) by (meson eq_key_imp_eq_value)
  then show False using e'(2) assms(3) by simp
qed

lemma upsertScore_other_question:
  assumes "q \<noteq> data_questionId d"
  shows "filter (\<lambda>r. questionId r = q) (scoreTable (snd (upsertScore d db)))
           = filter (\<lambda>r. questionId r = q) (scoreTable db)"
proof (cases "find (same_key d) (scoreTable db)")
  case None
  then show ?thesis using assms by (simp add: upsertScore_def create_row_def)
next
  case (Some r)
  have "filter (\<lambda>r. questionId r = q) (map (\<lambda>x. if same_key d x then apply_update d x else x) xs)
          = filter (\<lambda>r. questionId r = q) xs" for xs
    using assms by (induction xs) (auto simp: same_key_def apply_update_def)
  then show ?thesis using Some by (simp add: upsertScore_def)
qed

lemma upsert_other_question:
  assumes "q \<noteq> body_questionId b"
  shows "filter (\<lambda>r. questionId r = q) (scoreTable (snd (upsert u b db)))
           = filter (\<lambda>r. questionId r = q) (scoreTable db)"
proof -
  consider "snd (upsert u b db) = db" | "snd (upsert u b db) = snd (upsertScore (body_data b) db)"
    using snd_upsert [of u b db] by blast
  then show ?thesis
  proof cases
    case 1
    then show ?thesis by (simp only:)
  next
    case 2
    have "filter (\<lambda>r. questionId r = q) (scoreTable (snd (upsertScore (body_data b) db)))
            = filter (\<lambda>r. questionId r = q) (scoreTable db)"
      by (rule upsertScore_other_question) (simp add: body_data_def assms)
    then show ?thesis unfolding 2 .
  qed
qed

lemma handle_requests_other_question:
  assumes "q \<notin> body_questionId ` set reqs"
  shows "filter (\<lambda>r. questionId r = q) (scoreTable (handle_requests u reqs db))
           = filter (\<lambda>r. questionId r = q) (scoreTable db)"
  using assms
proof (induction reqs arbitrary: db)
  case Nil
  then show ?case by (simp add: handle_requests_def)
next
  case (Cons b reqs)
  have h: "handle_requests u (b # reqs) db = handle_requests u reqs (snd (upsert u b db))"
    by (simp add: handle_requests_def)
  have "q \<noteq> body_questionId b" "q \<notin> body_questionId ` set reqs" using Cons.prems by auto
  then show ?case
    using Cons.IH [of "snd (upsert u b db)"] upsert_other_question [of q b u db] h by simp
qed

lemma updateNotes_fresh:
  assumes "q \<notin> fst ` set buf"
  shows "updateNotes q t buf = buf @ [(q, \<lparr>entry_score = 0, entry_notes = t\<rparr>)]"
proof -
  have "map_of buf q = None" using assms by (simp add: map_of_eq_None_iff)
  then show ?thesis using assms by (simp add: updateNotes_def assign_def)
qed

lemma saveScores_notes_only:
  assumes "q \<notin> fst ` set buf"
  shows "q \<notin> body_questionId ` set (saveScores iid (updateNotes q t buf))"
proof
  assume "q \<in> body_questionId ` set (saveScores iid (updateNotes q t buf))"
  then obtain b where b: "b \<in> set (saveScores iid (updateNotes q t buf))" "body_questionId b = q"
    by auto
  then obtain e where "(q, e) \<in> set (updateNotes q t buf)" "0 < entry_score e"
    using saveScores_sound [OF b(1)] by auto
  then show False using assms by (auto simp: updateNotes_fresh [OF assms] image_iff)
qed

text \<open>
  Claim C9.  In a save cycle over the buffer (an object: one entry per question id) every
  request issued is the upsert of a buffer entry with a score above zero, keyed by the
  interview id and the question id and carrying its score and notes; every such entry is
  upserted, once; an entry whose score is zero or less is not sent and the stored rows of
  its question are untouched by the cycle; an entry created by typing notes for a
  question without a score is never sent.
\<close>

theorem save_cycle:
  assumes "distinct (map fst buf)"
  shows "(\<forall>b\<in>set (saveScores iid buf).
            body_interviewId b = iid
            \<and> (\<exists>e. (body_questionId b, e) \<in> set buf \<and> 0 < entry_score e
                   \<and> body_score b = JNumber (of_int (entry_score e))
                   \<and> body_notes b = Some (entry_notes e)))
         \<and> (iid \<noteq> [] \<longrightarrow>
              (\<forall>q e. (q, e) \<in> set buf \<and> 0 < entry_score e \<longrightarrow>
                 \<lparr>body_interviewId = iid, body_questionId = q,
                  body_score = JNumber (of_int (entry_score e)),
                  body_notes = Some (entry_notes e)\<rparr> \<in> set (saveScores iid buf)))
         \<and> distinct (map body_questionId (saveScores iid buf))
         \<and> (\<forall>q e. (q, e) \<in> set buf \<and> entry_score e \<le> 0 \<longrightarrow>
               q \<notin> body_questionId ` set (saveScores iid buf)
               \<and> filter (\<lambda>r. questionId r = q)
                    (scoreTable (handle_requests u (saveScores iid buf) db))
                   = filter (\<lambda>r. questionId r = q) (scoreTable db))
         \<and> (\<forall>q t. q \<notin> fst ` set buf \<longrightarrow>
               q \<notin> body_questionId ` set (saveScores iid (updateNotes q t buf)))"
proof -
  have a: "\<forall>b\<in>set (saveScores iid buf).
            body_interviewId b = iid
            \<and> (\<exists>e. (body_questionId b, e) \<in> set buf \<and> 0 < entry_score e
                   \<and> body_score b = JNumber (of_int (entry_score e))
                   \<and> body_notes b = Some (entry_notes e))"
    using saveScores_sound [of _ iid buf] by blast
  have b: "iid \<noteq> [] \<longrightarrow>
              (\<forall>q e. (q, e) \<in> set buf \<and> 0 < entry_score e \<longrightarrow>
                 \<lparr>body_interviewId = iid, body_questionId = q,
                  body_score = JNumber (of_int (entry_score e)),
                  body_notes = Some (entry_notes e)\<rparr> \<in> set (saveScores iid buf))"
    using saveScores_complete [of iid _ _ buf] by blast
  have c: "distinct (map body_questionId (saveScores iid buf))"
    using saveScores_distinct [OF assms] .
  have d: "\<forall>q e. (q, e) \<in> set buf \<and> entry_score e \<le> 0 \<longrightarrow>
               q \<notin> body_questionId ` set (saveScores iid buf)
               \<and> filter (\<lambda>r. questionId r = q)
                    (scoreTable (handle_requests u (saveScores iid buf) db))
                   = filter (\<lambda>r. questionId r = q) (scoreTable db)"
    using saveScores_unscored [OF assms, of _ _ iid]
      handle_requests_other_question [of _ "saveScores iid buf" u db] by blast
  have e: "\<forall>q t. q \<notin> fst ` set buf \<longrightarrow>
               q \<notin> body_questionId ` set (saveScores iid (updateNotes q t buf))"
    using saveScores_notes_only [of _ buf iid] by blast
  show ?thesis using a b c d e by (intro conjI)
qed


theorem save_cycle_witness:
  "distinct (map fst example_buffer)
   \<and> saveScores ''i1'' example_buffer
       = [\<lparr>body_interviewId = ''i1'', body_questionId = ''q1'', body_score = JNumber 4,
           body_notes = Some ''ok''\<rparr>]
   \<and> ''q2'' \<notin> body_questionId ` set (saveScores ''i1'' example_buffer)
   \<and> filter (\<lambda>r. questionId r = ''q2'')
        (scoreTable (handle_requests ''alice'' (saveScores ''i1'' example_buffer) (example_db IN_PROGRESS)))
       = filter (\<lambda>r. questionId r = ''q2'') (scoreTable (example_db IN_PROGRESS))"
proof -
  have d: "distinct (map fst example_buffer)"
    by (simp add: example_buffer_def)
  have m: "(''q2'', \<lparr>entry_score = 0, entry_notes = ''thinking''\<rparr>) \<in> set example_buffer
           \<and> entry_score \<lparr>entry_score = 0, entry_notes = ''thinking''\<rparr> \<le> 0"
    by (simp add: example_buffer_def)
  have s: "saveScores ''i1'' example_buffer
       = [\<lparr>body_interviewId = ''i1'', body_questionId = ''q1'', body_score = JNumber 4,
           body_notes = Some ''ok''\<rparr>]"
    by (simp add: saveScores_def example_buffer_def)
  show ?thesis
    using d m s save_cycle [OF d, of "''i1''" "''alice''" "example_db IN_PROGRESS"] by blast
qed


section \<open>Finishing the last section\<close>

lemma complete_scoreTable: "scoreTable (snd (complete iid u db)) = scoreTable db"
proof -
  consider "snd (completeInterview iid u db) = db"
    | s where "snd (completeInterview iid u db) = set_status iid s COMPLETED db"
    using snd_completeInterview [of iid u db] by blast
  then have "scoreTable (snd (completeInterview iid u db)) = scoreTable db"
  proof cases
    case 1
    then show ?thesis by (simp only:)
  next
    case 2
    then show ?thesis by (simp only: set_status_def) simp
  qed
  then show ?thesis by (simp only: snd_complete)
qed

lemma handleNextSection_final:
  assumes "page_id pg \<noteq> []" and "\<not> int (currentSectionIdx pg) < int (sectionCount pg) - 1"
  shows "scoreTable (snd (handleNextSection u now pg db))
           = scoreTable (handle_requests u (saveScores (page_id pg) (scores_buffer pg)) db)"
proof -
  have "snd (handleNextSection u now pg db)
          = snd (complete (page_id pg) u
                   (handle_requests u (saveScores (page_id pg) (scores_buffer pg)) db))"
    using assms by (simp add: handleNextSection_def Let_def)
  then show ?thesis by (simp only: complete_scoreTable)
qed

lemma handle_requests_Cons:
  "handle_requests u (b # reqs) db = handle_requests u reqs (snd (upsert u b db))"
  by (simp add: handle_requests_def)

lemma handle_requests_stores:
  assumes "distinct (map body_questionId reqs)" and "b \<in> set reqs"
    and "body_interviewId b \<noteq> []" "body_questionId b \<noteq> []"
    and "1 \<le> n" "n \<le> 5" "body_score b = JNumber (of_int n)"
    and "interviewSession db (body_interviewId b) = Some s" "interviewerId s = u"
    and "body_questionId b \<in> question db"
  shows "\<exists>row\<in>set (scoreTable (handle_requests u reqs db)).
           interviewId row = body_interviewId b \<and> questionId row = body_questionId b
           \<and> score row = n \<and> (\<forall>t. body_notes b = Some t \<longrightarrow> notes row = Some t)"
  using assms(1,2,8,10)
proof (induction reqs arbitrary: db)
  case Nil
  then show ?case by simp
next
  case (Cons a reqs)
  let ?db1 = "snd (upsert u a db)"
  have t: "interviewSession ?db1 = interviewSession db" "question ?db1 = question db"
    using upsert_tables [of u a db] by simp_all
  show ?case
  proof (cases "b = a")
    case True
    obtain row where row: "row \<in> set (scoreTable ?db1)"
      "interviewId row = body_interviewId b" "questionId row = body_questionId b"
      "score row = n" "\<forall>t. body_notes b = Some t \<longrightarrow> notes row = Some t"
      using upsert_stores [OF assms(3,4,5,6,7) Cons.prems(3) assms(9) Cons.prems(4)] True
      by auto
    have "body_questionId b \<notin> body_questionId ` set reqs"
      using Cons.prems(1) True by simp
    then have "filter (\<lambda>r. questionId r = body_questionId b) (scoreTable (handle_requests u reqs ?db1))
                 = filter (\<lambda>r. questionId r = body_questionId b) (scoreTable ?db1)"
      by (rule handle_requests_other_question)
    moreover have "row \<in> set (filter (\<lambda>r. questionId r = body_questionId b) (scoreTable ?db1))"
      using row(1,3) by simp
    ultimately have "row \<in> set (filter (\<lambda>r. questionId r = body_questionId b)
                                (scoreTable (handle_requests u reqs ?db1)))"
      by (simp only:)
    then have "row \<in> set (scoreTable (handle_requests u reqs ?db1))"
      by simp
    then show ?thesis using row(2-5) by (auto simp: handle_requests_Cons)
  next
    case False
    then have "b \<in> set reqs" using Cons.prems(2) by simp
    moreover have "distinct (map body_questionId reqs)" using Cons.prems(1) by simp
    ultimately show ?thesis
      using Cons.IH [of ?db1] t Cons.prems(3,4) by (simp add: handle_requests_Cons)
  qed
qed

lemma handleNextSection_saves:
  assumes "page_id pg \<noteq> []" and "\<not> int (currentSectionIdx pg) < int (sectionCount pg) - 1"
    and "interviewSession db (page_id pg) = Some s" "interviewerId s = u"
    and "distinct (map fst (scores_buffer pg))"
    and "(q, e) \<in> set (scores_buffer pg)" "1 \<le> entry_score e" "entry_score e \<le> 5"
    and "q \<noteq> []" "q \<in> question db"
  shows "\<exists>row\<in>set (scoreTable (snd (handleNextSection u now pg db))).
           interviewId row = page_id pg \<and> questionId row = q
           \<and> score row = entry_score e \<and> notes row = Some (entry_notes e)"
proof -
  let ?reqs = "saveScores (page_id pg) (scores_buffer pg)"
  let ?b = "\<lparr>body_interviewId = page_id pg, body_questionId = q,
             body_score = JNumber (of_int (entry_score e)),
             body_notes = Some (entry_notes e)\<rparr>"
  have m: "?b \<in> set ?reqs"
    using saveScores_complete [OF assms(1,6)] assms(7) by simp
  have d: "distinct (map body_questionId ?reqs)"
    using saveScores_distinct [OF assms(5)] .
  have "\<exists>row\<in>set (scoreTable (handle_requests u ?reqs db)).
           interviewId row = body_interviewId ?b \<and> questionId row = body_questionId ?b
           \<and> score row = entry_score e \<and> (\<forall>t. body_notes ?b = Some t \<longrightarrow> notes row = Some t)"
    by (rule handle_requests_stores [OF d m, where s = s])
       (simp_all add: assms)
  then show ?thesis
    unfolding handleNextSection_final [OF assms(1,2)] by simp
qed

text \<open>
  Claim C1, as stated, fails.  The interviewer finishes the last section
  (\<open>handleNextSection\<close> saves the buffer and completes the session); the session is
  COMPLETED, and a later upsert by the owner is answered with the row and overwrites the
  stored score.
\<close>

theorem finished_session_upsert_counterexample:
  "map_option status
     (interviewSession (snd (handleNextSection ''alice'' 0 example_page (example_db IN_PROGRESS))) ''i1'')
     = Some COMPLETED
   \<and> scoreTable (snd (handleNextSection ''alice'' 0 example_page (example_db IN_PROGRESS)))
     = [\<lparr>interviewId = ''i1'', questionId = ''q1'', score = 4, notes = Some ''ok''\<rparr>]
   \<and> fst (upsert ''alice'' (example_body ''q1'' 2)
            (snd (handleNextSection ''alice'' 0 example_page (example_db IN_PROGRESS))))
     = Json \<lparr>interviewId = ''i1'', questionId = ''q1'', score = 2, notes = Some ''ok''\<rparr>
   \<and> scoreTable (snd (upsert ''alice'' (example_body ''q1'' 2)
            (snd (handleNextSection ''alice'' 0 example_page (example_db IN_PROGRESS)))))
     = [\<lparr>interviewId = ''i1'', questionId = ''q1'', score = 2, notes = Some ''ok''\<rparr>]"
  by code_simp

text \<open>
  Claim C1, amended.  \<open>handleNextSection\<close> on the final section, by the owner of a session in
  progress, saves the buffer and leaves the session COMPLETED: the score rows are those
  left by the requests of \<open>saveScores\<close>, and every buffer entry with a score in [1,5] for a
  question of the bank has its row with that score and those notes.  An upsert is not
  rejected on account of the session status: its response and the resulting score rows
  are the same whatever the status is, and for a COMPLETED session an integer score in
  [1,5] from the owner for a question of the bank is stored.
\<close>

theorem finished_session_upsert:
  "fst (upsert u b (with_status iid st db)) = fst (upsert u b db)
   \<and> scoreTable (snd (upsert u b (with_status iid st db))) = scoreTable (snd (upsert u b db))
   \<and> (page_id pg \<noteq> [] \<and> \<not> int (currentSectionIdx pg) < int (sectionCount pg) - 1
        \<and> interviewSession db (page_id pg) = Some s \<and> interviewerId s = u
        \<and> status s = IN_PROGRESS \<longrightarrow>
        map_option status (interviewSession (snd (handleNextSection u now pg db)) (page_id pg))
          = Some COMPLETED
        \<and> scoreTable (snd (handleNextSection u now pg db))
            = scoreTable (handle_requests u (saveScores (page_id pg) (scores_buffer pg)) db)
        \<and> (distinct (map fst (scores_buffer pg)) \<longrightarrow>
             (\<forall>q e. (q, e) \<in> set (scores_buffer pg) \<and> 1 \<le> entry_score e \<and> entry_score e \<le> 5
                    \<and> q \<noteq> [] \<and> q \<in> question db \<longrightarrow>
                (\<exists>row\<in>set (scoreTable (snd (handleNextSection u now pg db))).
                   interviewId row = page_id pg \<and> questionId row = q
                   \<and> score row = entry_score e \<and> notes row = Some (entry_notes e)))))
   \<and> (body_interviewId b \<noteq> [] \<and> body_questionId b \<noteq> [] \<and> 1 \<le> n \<and> n \<le> 5
        \<and> body_score b = JNumber (of_int n)
        \<and> interviewSession db (body_interviewId b) = Some s' \<and> interviewerId s' = u
        \<and> status s' = COMPLETED \<and> body_questionId b \<in> question db \<longrightarrow>
        (\<exists>row. fst (upsert u b db) = Json row \<and> row \<in> set (scoreTable (snd (upsert u b db)))
           \<and> interviewId row = body_interviewId b \<and> questionId row = body_questionId b
           \<and> score row = n))"
proof -
  have a: "fst (upsert u b (with_status iid st db)) = fst (upsert u b db)
           \<and> scoreTable (snd (upsert u b (with_status iid st db))) = scoreTable (snd (upsert u b db))"
    by (rule upsert_with_status)
  have c: "body_interviewId b \<noteq> [] \<and> body_questionId b \<noteq> [] \<and> 1 \<le> n \<and> n \<le> 5
        \<and> body_score b = JNumber (of_int n)
        \<and> interviewSession db (body_interviewId b) = Some s' \<and> interviewerId s' = u
        \<and> status s' = COMPLETED \<and> body_questionId b \<in> question db \<longrightarrow>
        (\<exists>row. fst (upsert u b db) = Json row \<and> row \<in> set (scoreTable (snd (upsert u b db)))
           \<and> interviewId row = body_interviewId b \<and> questionId row = body_questionId b
           \<and> score row = n)"
    using upsert_stores [of b n db s' u] by blast
  have h: "page_id pg \<noteq> [] \<and> \<not> int (currentSectionIdx pg) < int (sectionCount pg) - 1
        \<and> interviewSession db (page_id pg) = Some s \<and> interviewerId s = u
        \<and> status s = IN_PROGRESS \<longrightarrow>
        map_option status (interviewSession (snd (handleNextSection u now pg db)) (page_id pg))
          = Some COMPLETED
        \<and> scoreTable (snd (handleNextSection u now pg db))
            = scoreTable (handle_requests u (saveScores (page_id pg) (scores_buffer pg)) db)
        \<and> (distinct (map fst (scores_buffer pg)) \<longrightarrow>
             (\<forall>q e. (q, e) \<in> set (scores_buffer pg) \<and> 1 \<le> entry_score e \<and> entry_score e \<le> 5
                    \<and> q \<noteq> [] \<and> q \<in> question db \<longrightarrow>
                (\<exists>row\<in>set (scoreTable (snd (handleNextSection u now pg db))).
                   interviewId row = page_id pg \<and> questionId row = q
                   \<and> score row = entry_score e \<and> notes row = Some (entry_notes e))))"
    using handleNextSection_completes [of pg db s u now] handleNextSection_final [of pg u now db]
      handleNextSection_saves [of pg db s u _ _ now]
    by blast
  from a have a1: "fst (upsert u b (with_status iid st db)) = fst (upsert u b db)"
    and a2: "scoreTable (snd (upsert u b (with_status iid st db))) = scoreTable (snd (upsert u b db))"
    by (rule conjunct1, rule conjunct2)
  show ?thesis by (intro conjI) (rule a1, rule a2, rule h, rule c)
qed

theorem finished_session_upsert_witness:
  "fst (upsert ''alice'' (example_body ''q2'' 5) (example_db COMPLETED))
     = Json \<lparr>interviewId = ''i1'', questionId = ''q2'', score = 5, notes = None\<rparr>
   \<and> map_option status
        (interviewSession (snd (handleNextSection ''alice'' 0 example_page (example_db IN_PROGRESS))) ''i1'')
     = Some COMPLETED
   \<and> scoreTable (snd (handleNextSection ''alice'' 0 example_page (example_db IN_PROGRESS)))
     = [\<lparr>interviewId = ''i1'', questionId = ''q1'', score = 4, notes = Some ''ok''\<rparr>]"
proof -
  have h: "page_id example_page \<noteq> []
           \<and> \<not> int (currentSectionIdx example_page) < int (sectionCount example_page) - 1
           \<and> interviewSession (example_db IN_PROGRESS) (page_id example_page)
               = Some (example_session IN_PROGRESS)
           \<and> interviewerId (example_session IN_PROGRESS) = ''alice''
           \<and> status (example_session IN_PROGRESS) = IN_PROGRESS"
    by (simp add: example_page_def example_db_def example_session_def)
  have k: "body_interviewId (example_body ''q2'' 5) \<noteq> [] \<and> body_questionId (example_body ''q2'' 5) \<noteq> []
           \<and> (1::int) \<le> 5 \<and> (5::int) \<le> 5 \<and> body_score (example_body ''q2'' 5) = JNumber (of_int 5)
           \<and> interviewSession (example_db COMPLETED) (body_interviewId (example_body ''q2'' 5))
               = Some (example_session COMPLETED)
           \<and> interviewerId (example_session COMPLETED) = ''alice''
           \<and> status (example_session COMPLETED) = COMPLETED
           \<and> body_questionId (example_body ''q2'' 5) \<in> question (example_db COMPLETED)"
    by (simp add: example_db_def example_session_def example_body_def)
  have "\<exists>row. fst (upsert ''alice'' (example_body ''q2'' 5) (example_db COMPLETED)) = Json row
          \<and> row \<in> set (scoreTable (snd (upsert ''alice'' (example_body ''q2'' 5) (example_db COMPLETED))))
          \<and> interviewId row = body_interviewId (example_body ''q2'' 5)
          \<and> questionId row = body_questionId (example_body ''q2'' 5) \<and> score row = 5"
    and c: "map_option status
        (interviewSession (snd (handleNextSection ''alice'' 0 example_page (example_db IN_PROGRESS)))
           (page_id example_page)) = Some COMPLETED"
    using h k finished_session_upsert [of "''alice''" "example_body ''q2'' 5" "''i1''" COMPLETED
        "example_db COMPLETED" example_page "example_session IN_PROGRESS" 0 5 "example_session COMPLETED"]
      finished_session_upsert [of "''alice''" "example_body ''q2'' 5" "''i1''" COMPLETED
        "example_db IN_PROGRESS" example_page "example_session IN_PROGRESS" 0 5 "example_session COMPLETED"]
    by blast+
  moreover have "fst (upsert ''alice'' (example_body ''q2'' 5) (example_db COMPLETED))
     = Json \<lparr>interviewId = ''i1'', questionId = ''q2'', score = 5, notes = None\<rparr>"
    by code_simp
  moreover have "scoreTable (snd (handleNextSection ''alice'' 0 example_page (example_db IN_PROGRESS)))
     = [\<lparr>interviewId = ''i1'', questionId = ''q1'', score = 4, notes = Some ''ok''\<rparr>]"
    by code_simp
  ultimately show ?thesis by (simp add: example_page_def)
qed

section \<open>Score aggregation\<close>

lemma foldl_plus_mean: "fdiv (foldl (\<lambda>a b. fadd a b) 0 xs) (of_nat (length xs)) = mean xs"
  by (simp add: mean_def)

lemma foldl_of_int_mean:
  "fdiv (foldl (\<lambda>a b. fadd a (of_int b)) 0 xs) (of_nat (length xs)) = mean (map of_int xs)"
  by (simp add: mean_def foldl_map)

lemma foldl_score_mean:
  "fdiv (foldl (\<lambda>sum s. fadd sum (of_int (score s))) 0 xs) (of_nat (length xs))
     = mean (map of_int (map score xs))"
  by (simp add: mean_def foldl_map)

lemma filter_unique:
  "distinct (map f xs) \<Longrightarrow> x \<in> set xs \<Longrightarrow> filter (\<lambda>y. f y = f x) xs = [x]"
proof (induction xs)
  case Nil
  then show ?case by simp
next
  case (Cons a xs)
  have na: "f a \<notin> f ` set xs" and d: "distinct (map f xs)"
    using Cons.prems(1) by simp_all
  have no: "f y \<noteq> f a" if "y \<in> set xs" for y
  proof
    assume "f y = f a"
    then have "f a \<in> f ` set xs" using that by (metis imageI)
    with na show False ..
  qed
  show ?case
  proof (cases "x = a")
    case True
    have "filter (\<lambda>y. f y = f a) xs = []"
      using no by (simp add: filter_empty_conv)
    then show ?thesis using True by simp
  next
    case False
    then have x: "x \<in> set xs" using Cons.prems(2) by simp
    have "f a \<noteq> f x" using no [OF x] by simp
    moreover have "filter (\<lambda>y. f y = f x) xs = [x]" using Cons.IH [OF d x] .
    ultimately show ?thesis by simp
  qed
qed

lemma newMap_lookup:
  assumes "distinct (map questionId ss)"
  shows "(case newMap (map (\<lambda>s. (questionId s, s)) ss) k of None \<Rightarrow> [] | Some e \<Rightarrow> [e])
           = filter (\<lambda>e. questionId e = k) ss"
proof (cases "k \<in> questionId ` set ss")
  case False
  then have "newMap (map (\<lambda>s. (questionId s, s)) ss) k = None"
    by (simp add: newMap_def map_of_eq_None_iff image_image)
  moreover have "filter (\<lambda>e. questionId e = k) ss = []"
    using False by (auto simp: filter_empty_conv)
  ultimately show ?thesis by simp
next
  case True
  then obtain e where e: "e \<in> set ss" "questionId e = k" by auto
  have d: "distinct (map fst (rev (map (\<lambda>s. (questionId s, s)) ss)))"
    using assms by (simp add: rev_map [symmetric] comp_def)
  have "(k, e) \<in> set (rev (map (\<lambda>s. (questionId s, s)) ss))" using e by auto
  then have "newMap (map (\<lambda>s. (questionId s, s)) ss) k = Some e"
    unfolding newMap_def using d by simp
  moreover have "filter (\<lambda>y. questionId y = k) ss = [e]"
    using filter_unique [OF assms e(1)] e(2) by simp
  ultimately show ?thesis by simp
qed

lemma map_of_map_value:
  "map_of (map (\<lambda>s. (f s, g s)) ys) k = map_option g (map_of (map (\<lambda>s. (f s, s)) ys) k)"
  by (induction ys) simp_all

lemma newMap_score:
  "newMap (map (\<lambda>s. (questionId s, score s)) ss) k
     = map_option score (newMap (map (\<lambda>s. (questionId s, s)) ss) k)"
  unfolding newMap_def rev_map by (rule map_of_map_value)

lemma defined_concat:
  "defined (map f xs) = concat (map (\<lambda>x. case f x of None \<Rightarrow> [] | Some e \<Rightarrow> [e]) xs)"
  by (induction xs) (auto simp: defined_def)

lemma positive_concat:
  "map the (filter (\<lambda>s. s \<noteq> None \<and> the s > (0::int)) (map f xs))
     = concat (map (\<lambda>x. case f x of None \<Rightarrow> [] | Some v \<Rightarrow> if v > 0 then [v] else []) xs)"
  by (induction xs) (auto split: option.splits)

lemma list_sectionScores_spec:
  assumes "distinct (map questionId ss)"
  shows "list_sectionScores (newMap (map (\<lambda>s. (questionId s, score s)) ss)) qs sc
           = spec_sectionScores qs ss sc"
proof -
  have p: "(case newMap (map (\<lambda>s. (questionId s, score s)) ss) k of
              None \<Rightarrow> [] | Some v \<Rightarrow> if v > 0 then [v] else [])
           = map score (filter (\<lambda>e. questionId e = k \<and> score e > 0) ss)" for k
  proof -
    have "filter (\<lambda>e. questionId e = k \<and> score e > 0) ss
            = filter (\<lambda>e. score e > 0) (filter (\<lambda>e. questionId e = k) ss)"
      by (simp add: conj_commute)
    also have "\<dots> = filter (\<lambda>e. score e > 0)
                       (case newMap (map (\<lambda>s. (questionId s, s)) ss) k of None \<Rightarrow> [] | Some e \<Rightarrow> [e])"
      by (simp only: newMap_lookup [OF assms])
    finally show ?thesis
      by (cases "newMap (map (\<lambda>s. (questionId s, s)) ss) k") (simp_all add: newMap_score)
  qed
  show ?thesis
    unfolding list_sectionScores_def spec_sectionScores_def positive_concat p ..
qed

lemma export_sScores_spec:
  assumes "distinct (map questionId ss)" and "\<forall>e\<in>set ss. 0 < score e"
    and "\<forall>q\<in>set qs. (question_section_name q = section_name sc) = (question_sectionId q = sectionId sc)"
  shows "map score
           (export_sScores \<lparr>loaded_sectionConfigs = plan, loaded_selectedQuestions = qs, loaded_scores = ss\<rparr> sc)
           = spec_sectionScores qs ss sc"
proof -
  have f: "filter (\<lambda>q. question_section_name q = section_name sc) qs
            = filter (\<lambda>q. question_sectionId q = sectionId sc) qs"
    using assms(3) by (auto intro: filter_cong)
  have g: "filter (\<lambda>e. questionId e = k \<and> 0 < score e) ss = filter (\<lambda>e. questionId e = k) ss" for k
    using assms(2) by (auto intro: filter_cong)
  show ?thesis
    unfolding export_sScores_def spec_sectionScores_def
    by (simp add: Let_def defined_concat newMap_lookup [OF assms(1)] f g map_concat comp_def)
qed

lemma list_push_foldl:
  "foldl (list_push m qs) acc plan
     = acc @ map (\<lambda>sc. mean (map of_int (list_sectionScores m qs sc)))
               (filter (\<lambda>sc. list_sectionScores m qs sc \<noteq> []) plan)"
  by (induction plan arbitrary: acc) (simp_all add: list_push_def Let_def foldl_of_int_mean)

lemma export_push_foldl:
  "foldl (export_push iv) acc plan
     = acc @ map (\<lambda>sc. mean (map of_int (map score (export_sScores iv sc))))
               (filter (\<lambda>sc. map score (export_sScores iv sc) \<noteq> []) plan)"
  by (induction plan arbitrary: acc) (simp_all add: export_push_def Let_def foldl_score_mean)

lemma spec_sectionScores_no_entries: "spec_sectionScores qs [] sc = []"
  by (simp add: spec_sectionScores_def)

lemma spec_sectionScores_no_questions: "spec_sectionScores [] ss sc = []"
  by (simp add: spec_sectionScores_def)

lemma spec_sectionAverages_empty:
  "ss = [] \<or> plan = [] \<or> qs = [] \<Longrightarrow> spec_sectionAverages plan qs ss = []"
  by (auto simp: spec_sectionAverages_def spec_sectionScores_no_entries
        spec_sectionScores_no_questions)

lemma getOverallScore_spec:
  assumes "distinct (map questionId ss)"
  shows "getOverallScore \<lparr>sectionConfigs = plan, selectedQuestions = Some qs, scores = Some ss\<rparr>
           = spec_overallScore plan qs ss"
proof (cases "ss = [] \<or> plan = [] \<or> qs = []")
  case True
  then have "spec_sectionAverages plan qs ss = []" by (rule spec_sectionAverages_empty)
  then have "spec_overallScore plan qs ss = None" by (simp add: spec_overallScore_def)
  moreover have "getOverallScore \<lparr>sectionConfigs = plan, selectedQuestions = Some qs, scores = Some ss\<rparr>
                   = None"
    using True by (auto simp: getOverallScore_def)
  ultimately show ?thesis by simp
next
  case False
  have a: "foldl (list_push (newMap (map (\<lambda>s. (questionId s, score s)) ss)) qs) [] plan
             = spec_sectionAverages plan qs ss"
    by (simp add: list_push_foldl list_sectionScores_spec [OF assms] spec_sectionAverages_def)
  show ?thesis
    using False by (simp add: getOverallScore_def Let_def a spec_overallScore_def foldl_plus_mean)
qed

lemma generateExcel_avgScore_spec:
  assumes "distinct (map questionId ss)" and "\<forall>e\<in>set ss. 0 < score e"
    and "\<forall>sc\<in>set plan. \<forall>q\<in>set qs.
           (question_section_name q = section_name sc) = (question_sectionId q = sectionId sc)"
  shows "generateExcel_avgScore
           \<lparr>loaded_sectionConfigs = plan, loaded_selectedQuestions = qs, loaded_scores = ss\<rparr>
           = (case spec_overallScore plan qs ss of None \<Rightarrow> NA | Some m \<Rightarrow> toFixed1 m)"
proof -
  let ?iv = "\<lparr>loaded_sectionConfigs = plan, loaded_selectedQuestions = qs, loaded_scores = ss\<rparr>"
  have e: "map score (export_sScores ?iv sc) = spec_sectionScores qs ss sc" if "sc \<in> set plan" for sc
    using export_sScores_spec [OF assms(1,2), of qs sc plan] assms(3) that by blast
  have f: "filter (\<lambda>sc. map score (export_sScores ?iv sc) \<noteq> []) plan
             = filter (\<lambda>sc. spec_sectionScores qs ss sc \<noteq> []) plan"
    by (rule filter_cong) (simp_all only: e)
  have "map (\<lambda>sc. mean (map of_int (map score (export_sScores ?iv sc))))
              (filter (\<lambda>sc. spec_sectionScores qs ss sc \<noteq> []) plan)
          = map (\<lambda>sc. mean (map of_int (spec_sectionScores qs ss sc)))
              (filter (\<lambda>sc. spec_sectionScores qs ss sc \<noteq> []) plan)"
    by (rule map_cong) (simp_all only: e set_filter mem_Collect_eq)
  then have a: "foldl (export_push ?iv) [] plan = spec_sectionAverages plan qs ss"
    by (simp only: export_push_foldl f spec_sectionAverages_def append_Nil)
  show ?thesis
    by (simp add: generateExcel_avgScore_def Let_def a spec_overallScore_def foldl_plus_mean)
qed

subsection \<open>Accuracy of the computed numbers\<close>

text \<open>
  Rounding to binary64 changes a number by at most the fraction \<open>1 / 2 ^ 53\<close> of
  it, so a sum of non-negative numbers taken from first to last, a mean, and the mean of
  section means lie between their exact values multiplied by a power of
  \<open>1 - 1 / 2 ^ 53\<close> and by the same power of \<open>1 + 1 / 2 ^ 53\<close>.
\<close>

lemma quotient_of_pos:
  assumes "0 < x" "quotient_of x = (p, q)"
  shows "0 < p \<and> 0 < q \<and> x = of_int p / of_int q"
proof -
  have q: "0 < q" using assms(2) by (rule quotient_of_denom_pos)
  have x: "x = of_int p / of_int q" using assms(2) by (rule quotient_of_div)
  have "0 < (of_int p :: rat)"
    using assms(1) q unfolding x by (simp add: zero_less_divide_iff)
  then show ?thesis using q x by simp
qed

lemma bitlen_bounds_rat:
  assumes "0 < p"
  shows "2 powi (bitlen p - 1) \<le> (of_int p :: rat) \<and> (of_int p :: rat) < 2 powi (bitlen p)"
proof -
  have b: "2 ^ nat (bitlen p - 1) \<le> p" "p < 2 ^ nat (bitlen p)"
    using bitlen_bounds [OF assms] by simp_all
  have g: "1 \<le> bitlen p" using assms by (simp add: bitlen_alt_def)
  have "(of_int (2 ^ nat (bitlen p - 1)) :: rat) \<le> of_int p"
    using b(1) by (simp only: of_int_le_iff)
  moreover have "(of_int p :: rat) < of_int (2 ^ nat (bitlen p))"
    using b(2) by (simp only: of_int_less_iff)
  ultimately show ?thesis using g by (simp add: power_int_def)
qed

lemma exponent_bounds:
  assumes "x \<noteq> 0"
  shows "2 powi (exponent x) \<le> \<bar>x\<bar> \<and> \<bar>x\<bar> < 2 powi (exponent x + 1)"
proof -
  obtain p q where pq: "quotient_of \<bar>x\<bar> = (p, q)" by (cases "quotient_of \<bar>x\<bar>")
  have pos: "0 < \<bar>x\<bar>" using assms by simp
  have p: "0 < p" and q: "0 < q" and x: "\<bar>x\<bar> = of_int p / of_int q"
    using quotient_of_pos [OF pos pq] by simp_all
  let ?k = "bitlen p - bitlen q"
  have bp: "2 powi (bitlen p - 1) \<le> (of_int p :: rat)" "(of_int p :: rat) < 2 powi (bitlen p)"
    using bitlen_bounds_rat [OF p] by simp_all
  have bq: "2 powi (bitlen q - 1) \<le> (of_int q :: rat)" "(of_int q :: rat) < 2 powi (bitlen q)"
    using bitlen_bounds_rat [OF q] by simp_all
  have qpos: "0 < (of_int q :: rat)" using q by simp
  have ppos: "0 < (of_int p :: rat)" using p by simp
  have up: "\<bar>x\<bar> < 2 powi (?k + 1)"
  proof -
    have "of_int p / of_int q < (2 powi (bitlen p) :: rat) / of_int q"
      using bp(2) qpos by (simp add: divide_strict_right_mono)
    also have "\<dots> \<le> 2 powi (bitlen p) / 2 powi (bitlen q - 1)"
      using bq(1) qpos by (intro divide_left_mono) (simp_all add: zero_less_power_int mult_pos_pos)
    also have "\<dots> = 2 powi (bitlen p - (bitlen q - 1))"
      by (simp add: power_int_diff)
    finally show ?thesis unfolding x by (simp add: algebra_simps)
  qed
  have lo: "2 powi (?k - 1) < \<bar>x\<bar>"
  proof -
    have "(2 powi (?k - 1) :: rat) = 2 powi (bitlen p - 1) / 2 powi (bitlen q)"
      by (simp add: power_int_diff [symmetric] algebra_simps)
    also have "\<dots> \<le> of_int p / 2 powi (bitlen q)"
      using bp(1) by (intro divide_right_mono) (simp_all add: zero_le_power_int)
    also have "\<dots> < of_int p / of_int q"
      using bq(2) ppos qpos by (intro divide_strict_left_mono) (simp_all add: zero_less_power_int)
    finally show ?thesis unfolding x .
  qed
  have e: "exponent x = (if 2 powi ?k \<le> \<bar>x\<bar> then ?k else ?k - 1)"
    by (simp add: exponent_def pq Let_def)
  show ?thesis
  proof (cases "2 powi ?k \<le> \<bar>x\<bar>")
    case True
    then show ?thesis using e up by simp
  next
    case False
    then show ?thesis using e lo by simp
  qed
qed

lemma round_half_even_error: "\<bar>of_int (round_half_even y) - y\<bar> \<le> 1 / 2"
proof -
  define d where "d = y - of_int \<lfloor>y\<rfloor>"
  have d: "0 \<le> d" "d < 1" unfolding d_def by linarith+
  have y: "y = of_int \<lfloor>y\<rfloor> + d" unfolding d_def by simp
  consider "d < 1 / 2" | "1 / 2 < d" | "d = 1 / 2" by linarith
  then show ?thesis
  proof cases
    case 1
    then have "round_half_even y = \<lfloor>y\<rfloor>"
      by (simp add: round_half_even_def Let_def d_def)
    then show ?thesis using d 1 y by simp
  next
    case 2
    then have "round_half_even y = \<lfloor>y\<rfloor> + 1"
      by (simp add: round_half_even_def Let_def d_def)
    then have "of_int (round_half_even y) - y = 1 - d" using y by simp
    then show ?thesis using d 2 by simp
  next
    case 3
    then have "round_half_even y = \<lfloor>y\<rfloor> \<or> round_half_even y = \<lfloor>y\<rfloor> + 1"
      by (simp add: round_half_even_def Let_def d_def)
    then have "of_int (round_half_even y) - y = - d \<or> of_int (round_half_even y) - y = 1 - d"
      using y by auto
    then show ?thesis using 3 by auto
  qed
qed

lemma binary64_error:
  assumes "x \<noteq> 0"
  shows "\<bar>binary64 x - x\<bar> \<le> 2 powi (exponent x - 53)"
proof -
  let ?ulp = "2 powi (exponent x - 52) :: rat"
  have u: "0 < ?ulp" by (simp add: zero_less_power_int)
  have "binary64 x - x = (of_int (round_half_even (x / ?ulp)) - x / ?ulp) * ?ulp"
    using assms u by (simp add: binary64_def Let_def algebra_simps)
  then have "\<bar>binary64 x - x\<bar> = \<bar>of_int (round_half_even (x / ?ulp)) - x / ?ulp\<bar> * ?ulp"
    using u by (simp add: abs_mult)
  also have "\<dots> \<le> (1 / 2) * ?ulp"
    using round_half_even_error [of "x / ?ulp"] u by (intro mult_right_mono) simp_all
  also have "\<dots> = 2 powi (exponent x - 53)"
  proof -
    have "(2 powi (exponent x - 52) :: rat) = 2 powi (exponent x - 53 + 1)" by simp
    also have "\<dots> = 2 powi (exponent x - 53) * 2"
      by (subst power_int_add) simp_all
    finally show ?thesis by simp
  qed
  finally show ?thesis .
qed

lemma binary64_relative: "\<bar>binary64 x - x\<bar> \<le> \<bar>x\<bar> / 2 ^ 53"
proof (cases "x = 0")
  case True
  then show ?thesis by (simp add: binary64_def)
next
  case False
  have "(2 powi (exponent x - 53) :: rat) = 2 powi (exponent x) / 2 powi 53"
    by (simp add: power_int_diff)
  also have "\<dots> = 2 powi (exponent x) / 2 ^ 53" by (simp add: power_int_def)
  also have "\<dots> \<le> \<bar>x\<bar> / 2 ^ 53"
    using exponent_bounds [OF False] by (intro divide_right_mono) simp_all
  finally show ?thesis using binary64_error [OF False] by linarith
qed

lemma binary64_between:
  assumes "0 \<le> x"
  shows "(1 - 1 / 2 ^ 53) * x \<le> binary64 x \<and> binary64 x \<le> (1 + 1 / 2 ^ 53) * x"
proof -
  have "\<bar>binary64 x - x\<bar> \<le> x / 2 ^ 53"
    using binary64_relative [of x] assms by simp
  then have "- (x / 2 ^ 53) \<le> binary64 x - x" "binary64 x - x \<le> x / 2 ^ 53"
    by linarith+
  then show ?thesis by (simp add: algebra_simps)
qed

lemma foldl_fadd_bounds:
  fixes xs :: "rat list"
  assumes "\<forall>x\<in>set xs. 0 \<le> x"
  shows "(1 - 1 / 2 ^ 53) ^ length xs * sum_list xs \<le> foldl fadd 0 xs
         \<and> foldl fadd 0 xs \<le> (1 + 1 / 2 ^ 53) ^ length xs * sum_list xs"
  using assms
proof (induction xs rule: rev_induct)
  case Nil
  then show ?case by simp
next
  case (snoc x xs)
  define a :: rat where "a = 1 - 1 / 2 ^ 53"
  define b :: rat where "b = 1 + 1 / 2 ^ 53"
  define n where "n = length xs"
  define S where "S = sum_list xs"
  define T where "T = foldl fadd 0 xs"
  have a: "0 \<le> a" "a \<le> 1" and b: "1 \<le> b" "0 \<le> b" by (simp_all add: a_def b_def)
  have x: "0 \<le> x" and xs: "\<forall>y\<in>set xs. 0 \<le> y" using snoc.prems by simp_all
  have S: "0 \<le> S" unfolding S_def using xs by (simp add: sum_list_nonneg)
  have ih: "a ^ n * S \<le> T" "T \<le> b ^ n * S"
    using snoc.IH [OF xs] by (simp_all add: a_def b_def n_def S_def T_def)
  have an: "0 \<le> a ^ n" "a ^ n \<le> 1" using a by (simp_all add: power_le_one)
  have bn: "1 \<le> b ^ n" using b by (simp add: one_le_power)
  have T: "0 \<le> T" using ih(1) an(1) S by (meson mult_nonneg_nonneg order_trans)
  have r: "a * (T + x) \<le> binary64 (T + x)" "binary64 (T + x) \<le> b * (T + x)"
    using binary64_between [of "T + x"] T x by (simp_all add: a_def b_def)
  have "a * (a ^ n * S + a ^ n * x) \<le> a * (T + x)"
  proof -
    have "a ^ n * x \<le> 1 * x" using an(2) x by (rule mult_right_mono)
    then have "a ^ n * x \<le> x" by simp
    then have "a ^ n * S + a ^ n * x \<le> T + x" using ih(1) by linarith
    then show ?thesis using a(1) by (rule mult_left_mono)
  qed
  then have lo: "a ^ Suc n * (S + x) \<le> binary64 (T + x)"
    using r(1) by (simp add: algebra_simps)
  have "b * (T + x) \<le> b * (b ^ n * S + b ^ n * x)"
  proof -
    have "1 * x \<le> b ^ n * x" using bn x by (rule mult_right_mono)
    then have "x \<le> b ^ n * x" by simp
    then have "T + x \<le> b ^ n * S + b ^ n * x" using ih(2) by linarith
    then show ?thesis using b(2) by (rule mult_left_mono)
  qed
  then have hi: "binary64 (T + x) \<le> b ^ Suc n * (S + x)"
    using r(2) by (simp add: algebra_simps)
  have "foldl fadd 0 (xs @ [x]) = binary64 (T + x)" by (simp add: fadd_def T_def)
  then show ?case using lo hi by (simp add: a_def b_def n_def S_def)
qed

lemma mean_bounds:
  fixes xs :: "rat list"
  assumes "\<forall>x\<in>set xs. 0 \<le> x"
  shows "(1 - 1 / 2 ^ 53) ^ Suc (length xs) * exact_mean xs \<le> mean xs
         \<and> mean xs \<le> (1 + 1 / 2 ^ 53) ^ Suc (length xs) * exact_mean xs"
proof -
  define a :: rat where "a = 1 - 1 / 2 ^ 53"
  define b :: rat where "b = 1 + 1 / 2 ^ 53"
  define n where "n = length xs"
  define c :: rat where "c = of_nat n"
  define S where "S = sum_list xs"
  define T where "T = foldl fadd 0 xs"
  have a: "0 \<le> a" and b: "0 \<le> b" by (simp_all add: a_def b_def)
  have c: "0 \<le> c" by (simp add: c_def)
  have S: "0 \<le> S" unfolding S_def using assms by (simp add: sum_list_nonneg)
  have t: "a ^ n * S \<le> T" "T \<le> b ^ n * S"
    using foldl_fadd_bounds [OF assms] by (simp_all add: a_def b_def n_def S_def T_def)
  have T: "0 \<le> T" using t(1) a S by (meson mult_nonneg_nonneg order_trans zero_le_power)
  have q: "0 \<le> T / c" using T c by simp
  have r: "a * (T / c) \<le> binary64 (T / c)" "binary64 (T / c) \<le> b * (T / c)"
    using binary64_between [OF q] by (simp_all add: a_def b_def)
  have "a ^ n * S / c \<le> T / c" using t(1) c by (rule divide_right_mono)
  then have "a * (a ^ n * S / c) \<le> a * (T / c)" using a by (rule mult_left_mono)
  then have lo: "a ^ Suc n * (S / c) \<le> binary64 (T / c)" using r(1) by (simp add: algebra_simps)
  have "T / c \<le> b ^ n * S / c" using t(2) c by (rule divide_right_mono)
  then have "b * (T / c) \<le> b * (b ^ n * S / c)" using b by (rule mult_left_mono)
  then have hi: "binary64 (T / c) \<le> b ^ Suc n * (S / c)" using r(2) by (simp add: algebra_simps)
  have "mean xs = binary64 (T / c)" by (simp add: mean_def fdiv_def T_def c_def n_def)
  moreover have "exact_mean xs = S / c" by (simp add: exact_mean_def S_def c_def n_def)
  ultimately show ?thesis using lo hi by (simp add: a_def b_def n_def)
qed

lemma exact_mean_nonneg: "\<forall>x\<in>set xs. 0 \<le> x \<Longrightarrow> 0 \<le> exact_mean xs"
  by (simp add: exact_mean_def sum_list_nonneg)

lemma mean_bounds_weak:
  fixes xs :: "rat list"
  assumes "\<forall>x\<in>set xs. 0 \<le> x" and "Suc (length xs) \<le> K"
  shows "(1 - 1 / 2 ^ 53) ^ K * exact_mean xs \<le> mean xs
         \<and> mean xs \<le> (1 + 1 / 2 ^ 53) ^ K * exact_mean xs"
proof -
  define a :: rat where "a = 1 - 1 / 2 ^ 53"
  define b :: rat where "b = 1 + 1 / 2 ^ 53"
  have a: "0 \<le> a" "a \<le> 1" and b: "1 \<le> b" by (simp_all add: a_def b_def)
  have e: "0 \<le> exact_mean xs" using assms(1) by (rule exact_mean_nonneg)
  have "a ^ K \<le> a ^ Suc (length xs)" using assms(2) a by (rule power_decreasing)
  then have lo: "a ^ K * exact_mean xs \<le> a ^ Suc (length xs) * exact_mean xs"
    using e by (rule mult_right_mono)
  have "b ^ Suc (length xs) \<le> b ^ K" using assms(2) b by (rule power_increasing)
  then have hi: "b ^ Suc (length xs) * exact_mean xs \<le> b ^ K * exact_mean xs"
    using e by (rule mult_right_mono)
  show ?thesis
    using mean_bounds [OF assms(1)] lo hi unfolding a_def b_def by linarith
qed

lemma sum_list_scaled:
  fixes a b :: rat
  assumes "list_all2 (\<lambda>m e. a * e \<le> m \<and> m \<le> b * e) ms es"
  shows "a * sum_list es \<le> sum_list ms \<and> sum_list ms \<le> b * sum_list es"
  using assms by (induction rule: list_all2_induct) (simp_all add: algebra_simps add_mono)

lemma length_le_concat:
  "x \<in> set xs \<Longrightarrow> length (f x) \<le> length (concat (map f xs))"
  by (induction xs) auto

lemma spec_sectionScores_positive: "\<forall>v\<in>set (spec_sectionScores qs ss sc). 0 < v"
  by (auto simp: spec_sectionScores_def)

lemma spec_overallScore_accuracy:
  "(exact_overallScore plan qs ss = None \<longrightarrow> spec_overallScore plan qs ss = None)
   \<and> (\<forall>m. exact_overallScore plan qs ss = Some m \<longrightarrow>
         (\<exists>r. spec_overallScore plan qs ss = Some r \<and> 0 \<le> m
            \<and> (1 - 1 / 2 ^ 53) ^ roundings plan qs ss * m \<le> r
            \<and> r \<le> (1 + 1 / 2 ^ 53) ^ roundings plan qs ss * m))"
proof -
  define a :: rat where "a = 1 - 1 / 2 ^ 53"
  define b :: rat where "b = 1 + 1 / 2 ^ 53"
  define present where "present = filter (\<lambda>sc. spec_sectionScores qs ss sc \<noteq> []) plan"
  define ms where "ms = map (\<lambda>sc. mean (map of_int (spec_sectionScores qs ss sc))) present"
  define es where "es = map (\<lambda>sc. exact_mean (map of_int (spec_sectionScores qs ss sc))) present"
  define N where "N = Suc (length (concat (map (spec_sectionScores qs ss) plan)))"
  define K' where "K' = Suc (length plan)"
  have a: "0 \<le> a" "a \<le> 1" and b: "1 \<le> b" "0 \<le> b" by (simp_all add: a_def b_def)
  have so: "spec_overallScore plan qs ss = (if ms = [] then None else Some (mean ms))"
    by (simp add: spec_overallScore_def spec_sectionAverages_def ms_def present_def Let_def)
  have eo: "exact_overallScore plan qs ss = (if es = [] then None else Some (exact_mean es))"
    by (simp add: exact_overallScore_def es_def present_def Let_def)
  have emp: "(ms = []) = (es = [])" by (simp add: ms_def es_def)
  have len: "length ms = length es" "length ms \<le> length plan"
    by (simp_all add: ms_def es_def present_def)
  have pw: "0 \<le> exact_mean (map of_int (spec_sectionScores qs ss sc))
            \<and> a ^ N * exact_mean (map of_int (spec_sectionScores qs ss sc))
                \<le> mean (map of_int (spec_sectionScores qs ss sc))
            \<and> mean (map of_int (spec_sectionScores qs ss sc))
                \<le> b ^ N * exact_mean (map of_int (spec_sectionScores qs ss sc))"
    if "sc \<in> set present" for sc
  proof -
    have p: "sc \<in> set plan" using that by (simp add: present_def)
    have nn: "\<forall>x\<in>set (map rat_of_int (spec_sectionScores qs ss sc)). 0 \<le> x"
      using spec_sectionScores_positive [of qs ss sc] by auto
    have "length (spec_sectionScores qs ss sc) \<le> length (concat (map (spec_sectionScores qs ss) plan))"
      using p by (rule length_le_concat)
    then have k: "Suc (length (map rat_of_int (spec_sectionScores qs ss sc))) \<le> N"
      by (simp add: N_def)
    show ?thesis
      using mean_bounds_weak [OF nn k] exact_mean_nonneg [OF nn] by (simp add: a_def b_def)
  qed
  have es_nonneg: "\<forall>e\<in>set es. 0 \<le> e" using pw by (auto simp: es_def)
  have ms_nonneg: "\<forall>m\<in>set ms. 0 \<le> m"
  proof
    fix m assume "m \<in> set ms"
    then obtain sc where sc: "sc \<in> set present" "m = mean (map of_int (spec_sectionScores qs ss sc))"
      by (auto simp: ms_def)
    have "0 \<le> a ^ N * exact_mean (map of_int (spec_sectionScores qs ss sc))"
      using pw [OF sc(1)] a(1) by simp
    then show "0 \<le> m" using pw [OF sc(1)] sc(2) by linarith
  qed
  have l2: "list_all2 (\<lambda>m e. a ^ N * e \<le> m \<and> m \<le> b ^ N * e) ms es"
    unfolding ms_def es_def list_all2_map1 list_all2_map2
    by (rule list_all2_same [THEN iffD2]) (use pw in blast)
  have sums: "a ^ N * sum_list es \<le> sum_list ms" "sum_list ms \<le> b ^ N * sum_list es"
    using sum_list_scaled [OF l2] by simp_all
  have c: "0 \<le> (of_nat (length es) :: rat)" by simp
  have "a ^ N * sum_list es / of_nat (length es) \<le> sum_list ms / of_nat (length es)"
    using sums(1) c by (rule divide_right_mono)
  then have e1: "a ^ N * exact_mean es \<le> exact_mean ms"
    by (simp add: exact_mean_def len(1))
  have "sum_list ms / of_nat (length es) \<le> b ^ N * sum_list es / of_nat (length es)"
    using sums(2) c by (rule divide_right_mono)
  then have e2: "exact_mean ms \<le> b ^ N * exact_mean es"
    by (simp add: exact_mean_def len(1))
  have k: "Suc (length ms) \<le> K'" using len(2) by (simp add: K'_def)
  have m1: "a ^ K' * exact_mean ms \<le> mean ms" "mean ms \<le> b ^ K' * exact_mean ms"
    using mean_bounds_weak [OF ms_nonneg k] by (simp_all add: a_def b_def)
  have M: "0 \<le> exact_mean es" using es_nonneg by (rule exact_mean_nonneg)
  have "a ^ K' * (a ^ N * exact_mean es) \<le> a ^ K' * exact_mean ms"
    using e1 a(1) by (intro mult_left_mono) simp_all
  then have lo: "a ^ (K' + N) * exact_mean es \<le> mean ms"
    using m1(1) by (simp add: power_add algebra_simps)
  have "b ^ K' * exact_mean ms \<le> b ^ K' * (b ^ N * exact_mean es)"
    using e2 b(2) by (intro mult_left_mono) simp_all
  then have hi: "mean ms \<le> b ^ (K' + N) * exact_mean es"
    using m1(2) by (simp add: power_add algebra_simps)
  have K: "K' + N = roundings plan qs ss" by (simp add: K'_def N_def roundings_def)
  show ?thesis
    using so eo emp lo hi M unfolding K a_def b_def by auto
qed

text \<open>
  Claim C2.  With one score entry per question (the unique index of the Score table),
  \<open>getOverallScore\<close> returns the mean of the per-section means over the sections that have
  at least one entry with a score above zero, each such section counting once whatever
  its number of questions, and returns nothing when no section has one; every mean is
  the sum from first to last divided by the count, in binary64 arithmetic as the code
  computes it.  The Excel export shows the same number with one decimal, or N/A, when
  every stored score is positive and section names identify sections.  The number
  returned is present exactly when the mean of section means in exact arithmetic is, and
  differs from it by no more than the roundings on the way: it lies between the exact
  value times \<open>(1 - 1 / 2 ^ 53) ^ k\<close> and times \<open>(1 + 1 / 2 ^ 53) ^ k\<close>,
  \<open>k\<close> being the number of scores above zero plus the number of sections plus
  two.  The instance below gives 2.5 for sections scored (5, 3, 4) and (1, 1), 4 when
  only the first section is scored, nothing without scores, and for sections scored
  (1, 2) and (1, 1, 1, 2, 2) the number 1.4499999999999997 (the exact mean of means is
  1.45) and the cell 1.4.
\<close>

theorem overall_score_mean_of_means:
  assumes "distinct (map questionId ss)"
  shows "getOverallScore \<lparr>sectionConfigs = plan, selectedQuestions = Some qs, scores = Some ss\<rparr>
           = spec_overallScore plan qs ss
         \<and> ((\<forall>e\<in>set ss. 0 < score e)
              \<and> (\<forall>sc\<in>set plan. \<forall>q\<in>set qs.
                    (question_section_name q = section_name sc)
                      = (question_sectionId q = sectionId sc))
            \<longrightarrow> generateExcel_avgScore
                  \<lparr>loaded_sectionConfigs = plan, loaded_selectedQuestions = qs, loaded_scores = ss\<rparr>
                  = (case spec_overallScore plan qs ss of None \<Rightarrow> NA | Some m \<Rightarrow> toFixed1 m))
         \<and> (exact_overallScore plan qs ss = None \<longrightarrow>
              getOverallScore \<lparr>sectionConfigs = plan, selectedQuestions = Some qs, scores = Some ss\<rparr>
                = None)
         \<and> (\<forall>m. exact_overallScore plan qs ss = Some m \<longrightarrow>
              (\<exists>r. getOverallScore
                      \<lparr>sectionConfigs = plan, selectedQuestions = Some qs, scores = Some ss\<rparr> = Some r
                   \<and> (1 - 1 / 2 ^ 53) ^ roundings plan qs ss * m \<le> r
                   \<and> r \<le> (1 + 1 / 2 ^ 53) ^ roundings plan qs ss * m))"
proof -
  have g: "getOverallScore \<lparr>sectionConfigs = plan, selectedQuestions = Some qs, scores = Some ss\<rparr>
             = spec_overallScore plan qs ss"
    using assms by (rule getOverallScore_spec)
  have x: "(\<forall>e\<in>set ss. 0 < score e)
              \<and> (\<forall>sc\<in>set plan. \<forall>q\<in>set qs.
                    (question_section_name q = section_name sc)
                      = (question_sectionId q = sectionId sc))
            \<longrightarrow> generateExcel_avgScore
                  \<lparr>loaded_sectionConfigs = plan, loaded_selectedQuestions = qs, loaded_scores = ss\<rparr>
                  = (case spec_overallScore plan qs ss of None \<Rightarrow> NA | Some m \<Rightarrow> toFixed1 m)"
    using generateExcel_avgScore_spec [OF assms, of plan qs] by blast
  have n: "exact_overallScore plan qs ss = None \<longrightarrow> spec_overallScore plan qs ss = None"
    using spec_overallScore_accuracy [of plan qs ss] by (rule conjunct1)
  have s: "\<forall>m. exact_overallScore plan qs ss = Some m \<longrightarrow>
             (\<exists>r. spec_overallScore plan qs ss = Some r
                  \<and> (1 - 1 / 2 ^ 53) ^ roundings plan qs ss * m \<le> r
                  \<and> r \<le> (1 + 1 / 2 ^ 53) ^ roundings plan qs ss * m)"
    using spec_overallScore_accuracy [of plan qs ss] by blast
  show ?thesis
    unfolding g by (intro conjI) (rule refl, rule x, rule n, rule s)
qed


theorem overall_score_mean_of_means_witness:
  "distinct (map questionId example_scores)
   \<and> getOverallScore
       \<lparr>sectionConfigs = example_plan, selectedQuestions = Some example_questions,
        scores = Some example_scores\<rparr> = Some (5 / 2)
   \<and> generateExcel_avgScore
       \<lparr>loaded_sectionConfigs = example_plan, loaded_selectedQuestions = example_questions,
        loaded_scores = example_scores\<rparr> = Fixed1 25
   \<and> getOverallScore
       \<lparr>sectionConfigs = example_plan, selectedQuestions = Some example_questions,
        scores = Some (take 3 example_scores)\<rparr> = Some 4
   \<and> getOverallScore
       \<lparr>sectionConfigs = example_plan, selectedQuestions = Some example_questions,
        scores = Some []\<rparr> = None
   \<and> getOverallScore
       \<lparr>sectionConfigs = example_plan, selectedQuestions = Some tie_questions,
        scores = Some tie_scores\<rparr> = Some (6530219459687219 / 4503599627370496)
   \<and> generateExcel_avgScore
       \<lparr>loaded_sectionConfigs = example_plan, loaded_selectedQuestions = tie_questions,
        loaded_scores = tie_scores\<rparr> = Fixed1 14
   \<and> exact_overallScore example_plan example_questions [] = None
   \<and> exact_overallScore example_plan tie_questions tie_scores = Some (29 / 20)
   \<and> roundings example_plan tie_questions tie_scores = 11
   \<and> (1 - 1 / 2 ^ 53) ^ 11 * (29 / 20) \<le> (6530219459687219 / 4503599627370496 :: rat)
   \<and> (6530219459687219 / 4503599627370496 :: rat) \<le> (1 + 1 / 2 ^ 53) ^ 11 * (29 / 20)"
proof -
  have d: "distinct (map questionId example_scores)"
    by (simp add: example_scores_def example_score_def)
  have d3: "distinct (map questionId (take 3 example_scores))"
    by (simp add: example_scores_def example_score_def)
  have d0: "distinct (map questionId ([] :: Score list))"
    by simp
  have dt: "distinct (map questionId tie_scores)"
    by (simp add: tie_scores_def example_score_def)
  have p: "\<forall>e\<in>set example_scores. 0 < score e"
    by (simp add: example_scores_def example_score_def)
  have pt: "\<forall>e\<in>set tie_scores. 0 < score e"
    by (simp add: tie_scores_def example_score_def)
  have n: "\<forall>sc\<in>set example_plan. \<forall>q\<in>set example_questions.
             (question_section_name q = section_name sc) = (question_sectionId q = sectionId sc)"
    by (simp add: example_plan_def example_questions_def example_item_def)
  have nt: "\<forall>sc\<in>set example_plan. \<forall>q\<in>set tie_questions.
             (question_section_name q = section_name sc) = (question_sectionId q = sectionId sc)"
    by (simp add: example_plan_def tie_questions_def example_item_def)
  have s: "spec_overallScore example_plan example_questions example_scores = Some (5 / 2)"
    by code_simp
  have s3: "spec_overallScore example_plan example_questions (take 3 example_scores) = Some 4"
    by code_simp
  have s0: "spec_overallScore example_plan example_questions [] = None"
    by code_simp
  have st: "spec_overallScore example_plan tie_questions tie_scores
              = Some (6530219459687219 / 4503599627370496)"
    by code_simp
  have t: "toFixed1 (5 / 2) = Fixed1 25"
    by code_simp
  have tt: "toFixed1 (6530219459687219 / 4503599627370496) = Fixed1 14"
    by code_simp
  have e: "getOverallScore
             \<lparr>sectionConfigs = example_plan, selectedQuestions = Some example_questions,
              scores = Some example_scores\<rparr> = Some (5 / 2)
           \<and> generateExcel_avgScore
             \<lparr>loaded_sectionConfigs = example_plan, loaded_selectedQuestions = example_questions,
              loaded_scores = example_scores\<rparr> = Fixed1 25"
    using overall_score_mean_of_means [OF d, of example_plan example_questions] p n s t by simp
  have e3: "getOverallScore
             \<lparr>sectionConfigs = example_plan, selectedQuestions = Some example_questions,
              scores = Some (take 3 example_scores)\<rparr> = Some 4"
    using overall_score_mean_of_means [OF d3, of example_plan example_questions] s3 by simp
  have e0: "getOverallScore
             \<lparr>sectionConfigs = example_plan, selectedQuestions = Some example_questions,
              scores = Some []\<rparr> = None"
    using overall_score_mean_of_means [OF d0, of example_plan example_questions] s0 by simp
  have et: "getOverallScore
             \<lparr>sectionConfigs = example_plan, selectedQuestions = Some tie_questions,
              scores = Some tie_scores\<rparr> = Some (6530219459687219 / 4503599627370496)
           \<and> generateExcel_avgScore
             \<lparr>loaded_sectionConfigs = example_plan, loaded_selectedQuestions = tie_questions,
              loaded_scores = tie_scores\<rparr> = Fixed1 14"
    using overall_score_mean_of_means [OF dt, of example_plan tie_questions] pt nt st tt by simp
  have x0: "exact_overallScore example_plan example_questions [] = None"
    by code_simp
  have xt: "exact_overallScore example_plan tie_questions tie_scores = Some (29 / 20)"
    by code_simp
  have k: "roundings example_plan tie_questions tie_scores = 11"
    by code_simp
  have "\<exists>r. getOverallScore
               \<lparr>sectionConfigs = example_plan, selectedQuestions = Some tie_questions,
                scores = Some tie_scores\<rparr> = Some r
            \<and> (1 - 1 / 2 ^ 53) ^ roundings example_plan tie_questions tie_scores * (29 / 20) \<le> r
            \<and> r \<le> (1 + 1 / 2 ^ 53) ^ roundings example_plan tie_questions tie_scores * (29 / 20)"
    using overall_score_mean_of_means [OF dt, of example_plan tie_questions] xt by blast
  then have b: "(1 - 1 / 2 ^ 53) ^ 11 * (29 / 20) \<le> (6530219459687219 / 4503599627370496 :: rat)
                \<and> (6530219459687219 / 4503599627370496 :: rat) \<le> (1 + 1 / 2 ^ 53) ^ 11 * (29 / 20)"
    unfolding k using et by (elim exE conjE) (simp only: option.inject)
  show ?thesis
    by (intro conjI) (rule d, rule e [THEN conjunct1], rule e [THEN conjunct2], rule e3, rule e0,
        rule et [THEN conjunct1], rule et [THEN conjunct2], rule x0, rule xt, rule k,
        rule b [THEN conjunct1], rule b [THEN conjunct2])
qed

section \<open>The four surfaces on one interview\<close>

text \<open>
  Claim C4 does not hold of the code.  For the interview with sections scored (1, 1, 2),
  (1, 1, 2) and (2) the per-section cells agree (1.3, 1.3, 2.0), but the results page
  averages these rounded cells and shows 1.5, while the Excel export, the PDF export and
  the list view average the unrounded section means (the number 1.5555555555555554) and
  show 1.6.
\<close>

theorem surfaces_disagree:
  "results_avgScore rounding_interview rounding_scores = Fixed1 15
   \<and> generateExcel_avgScore rounding_loaded = Fixed1 16
   \<and> generatePdf_avgScore rounding_loaded = Fixed1 16
   \<and> getOverallScore rounding_interview = Some (875699927544263 / 562949953421312)
   \<and> map_option toFixed1 (getOverallScore rounding_interview) = Some (Fixed1 16)
   \<and> map avg (sectionGroups rounding_interview rounding_scores) = [Fixed1 13, Fixed1 13, Fixed1 20]
   \<and> map (export_sectionAvg rounding_loaded) rounding_plan = [Fixed1 13, Fixed1 13, Fixed1 20]"
  by code_simp


end
